theory Spec2Isabelle
  imports Main "HOL-Library.AList"
begin

section \<open>The puzzle object of SudokuSolver.cpp\<close>

text \<open>
  The class \<open>SudokuPuzzle\<close> holds \<open>int board[9][9]\<close>, the array
  \<open>set<int>* possibilities[9][9]\<close> of nullable pointers to ordered sets, and the three
  integers \<open>minPossibilities\<close>, \<open>minRow\<close>, \<open>minCol\<close>.  The board is a list of rows;
  the table of candidate pointers is an association list from the cell to the set it
  points to, read with \<open>map_of\<close>; a cell with a null pointer has no entry.  A \<open>std::set<int>\<close> is the list of its elements in ascending
  order, which is the order its iterator visits them in.  Cell values are C++ \<open>int\<close>s that
  the program only copies and compares, so they are \<open>int\<close> here; the counters stay far
  below the range of a machine integer.

  The member \<open>verbose\<close> ("not really part of the state of the puzzle", as the class says)
  is written on entry to \<open>solve\<close> and \<open>isSolutionValid\<close> and read by the methods that
  narrate; it is the parameter \<open>vb\<close> of each method.  What a method writes to \<open>cout\<close> is
  the list of messages it returns, one constructor per output statement of the source.
\<close>

type_synonym cell = "nat \<times> nat"

type_synonym board = "int list list"

datatype RowOrCol = ROW | COL

datatype msg =
    RowRepeat nat int
  | ColRepeat nat int
  | RowOk nat
  | ColOk nat
  | SubmatrixRepeat nat nat int
  | SubmatrixOk nat nat
  | PrintBoard board
  | NumPossibilities nat nat "int list"
  | GonnaSet int
  | TrimReturning int
  | MinPossibilitiesIs nat nat nat
  | CreatingSubPuzzle int
  | SolutionHeader

record puzzle =
  board :: board
  possibilities :: "(cell \<times> int list) list"
  minPossibilities :: nat
  minRow :: nat
  minCol :: nat

text \<open>Reading \<open>board[row][col]\<close> and writing \<open>board[row][col] = v\<close>.\<close>

definition cellAt :: "board \<Rightarrow> nat \<Rightarrow> nat \<Rightarrow> int" where
  "cellAt b row col = b ! row ! col"

definition cellSet :: "board \<Rightarrow> nat \<Rightarrow> nat \<Rightarrow> int \<Rightarrow> board" where
  "cellSet b row col v = b[row := (b ! row)[col := v]]"

text \<open>A board is an array of nine rows of nine values.\<close>

definition wf_board :: "board \<Rightarrow> bool" where
  "wf_board b = (length b = 9 \<and> list_all (\<lambda>r. length r = 9) b)"

text \<open>The constructor from a 9x9 array: the values are copied, every candidate pointer is
  null, and the three minimum trackers start at 10.\<close>

definition SudokuPuzzle :: "board \<Rightarrow> puzzle" where
  "SudokuPuzzle potentialSolution =
     \<lparr>board = potentialSolution, possibilities = [],
      minPossibilities = 10, minRow = 10, minCol = 10\<rparr>"

definition getValue :: "puzzle \<Rightarrow> nat \<Rightarrow> nat \<Rightarrow> int" where
  "getValue p row col = cellAt (board p) row col"

definition setValue :: "puzzle \<Rightarrow> nat \<Rightarrow> nat \<Rightarrow> int \<Rightarrow> puzzle" where
  "setValue p row col v = p\<lparr>board := cellSet (board p) row col v\<rparr>"

section \<open>Unit checks\<close>

text \<open>\<open>isRowOrColOk\<close>: the loop over \<open>col = 0..8\<close> inserts each non-zero value into the set
  \<open>values\<close> and returns false at the first insertion that finds the value present.  With
  \<open>which = COL\<close> the two indices are swapped.\<close>

fun rowOrColLoop :: "bool \<Rightarrow> board \<Rightarrow> nat \<Rightarrow> RowOrCol \<Rightarrow> int set \<Rightarrow> nat list \<Rightarrow> bool \<times> msg list" where
  "rowOrColLoop vb b row which vals [] =
     (True, if vb then [if which = ROW then RowOk row else ColOk row] else [])"
| "rowOrColLoop vb b row which vals (col # cols) =
     (let v = (if which = ROW then cellAt b row col else cellAt b col row) in
      if v \<noteq> 0 then
        (if v \<in> vals
         then (False, if vb then [if which = ROW then RowRepeat row v else ColRepeat row v] else [])
         else rowOrColLoop vb b row which (insert v vals) cols)
      else rowOrColLoop vb b row which vals cols)"

definition isRowOrColOk :: "bool \<Rightarrow> board \<Rightarrow> nat \<Rightarrow> RowOrCol \<Rightarrow> bool \<times> msg list" where
  "isRowOrColOk vb b row which = rowOrColLoop vb b row which {} [0..<9]"

text \<open>\<open>isSubmatrixOk\<close>: the two nested loops visit the nine cells of the box row by row;
  the model walks the same cells in the same order.\<close>

fun submatrixLoop :: "bool \<Rightarrow> board \<Rightarrow> nat \<Rightarrow> nat \<Rightarrow> int set \<Rightarrow> cell list \<Rightarrow> bool \<times> msg list" where
  "submatrixLoop vb b startRowIdx startColIdx vals [] =
     (True, if vb then [SubmatrixOk startRowIdx startColIdx] else [])"
| "submatrixLoop vb b startRowIdx startColIdx vals ((row, col) # rest) =
     (let v = cellAt b row col in
      if v \<noteq> 0 then
        (if v \<in> vals
         then (False, if vb then [SubmatrixRepeat startRowIdx startColIdx v] else [])
         else submatrixLoop vb b startRowIdx startColIdx (insert v vals) rest)
      else submatrixLoop vb b startRowIdx startColIdx vals rest)"

definition isSubmatrixOk :: "bool \<Rightarrow> board \<Rightarrow> nat \<Rightarrow> nat \<Rightarrow> bool \<times> msg list" where
  "isSubmatrixOk vb b startRowIdx startColIdx =
     submatrixLoop vb b startRowIdx startColIdx {}
       (List.product [startRowIdx..<startRowIdx + 3] [startColIdx..<startColIdx + 3])"

text \<open>\<open>areSubmatricesOk\<close>: start indices 0, 3, 6 for rows and for columns, stopping at the
  first box that fails.\<close>

fun submatricesLoop :: "bool \<Rightarrow> board \<Rightarrow> cell list \<Rightarrow> bool \<times> msg list" where
  "submatricesLoop vb b [] = (True, [])"
| "submatricesLoop vb b ((startRow, startCol) # rest) =
     (case isSubmatrixOk vb b startRow startCol of (ok, m) \<Rightarrow>
        if \<not> ok then (False, m)
        else (case submatricesLoop vb b rest of (ok', m') \<Rightarrow> (ok', m @ m')))"

definition areSubmatricesOk :: "bool \<Rightarrow> board \<Rightarrow> bool \<times> msg list" where
  "areSubmatricesOk vb b = submatricesLoop vb b (List.product [0, 3, 6] [0, 3, 6])"

text \<open>\<open>isSolutionValid\<close>: the nine rows, then the nine columns, then the boxes, returning
  false at the first unit that fails.\<close>

fun rowsOrColsLoop :: "bool \<Rightarrow> board \<Rightarrow> RowOrCol \<Rightarrow> nat list \<Rightarrow> bool \<times> msg list" where
  "rowsOrColsLoop vb b which [] = (True, [])"
| "rowsOrColsLoop vb b which (i # rest) =
     (case isRowOrColOk vb b i which of (ok, m) \<Rightarrow>
        if \<not> ok then (False, m)
        else (case rowsOrColsLoop vb b which rest of (ok', m') \<Rightarrow> (ok', m @ m')))"

definition isSolutionValid :: "bool \<Rightarrow> board \<Rightarrow> bool \<times> msg list" where
  "isSolutionValid vb b =
     (case rowsOrColsLoop vb b ROW [0..<9] of (rowsOk, m1) \<Rightarrow>
        if \<not> rowsOk then (False, m1)
        else (case rowsOrColsLoop vb b COL [0..<9] of (colsOk, m2) \<Rightarrow>
                if \<not> colsOk then (False, m1 @ m2)
                else (case areSubmatricesOk vb b of (subOk, m3) \<Rightarrow> (subOk, m1 @ m2 @ m3))))"

section \<open>Units of the grid\<close>

text \<open>A unit is a row, a column or one of the nine 3x3 boxes; it is consistent when no
  non-zero value occurs twice among its nine cells.  Zeros are dropped before the
  comparison, so two blanks never count as a duplicate.\<close>

definition duplicateFree :: "int list \<Rightarrow> bool" where
  "duplicateFree xs = distinct (filter (\<lambda>v. v \<noteq> 0) xs)"

definition rowCells :: "board \<Rightarrow> nat \<Rightarrow> int list" where
  "rowCells b row = map (\<lambda>col. cellAt b row col) [0..<9]"

definition colCells :: "board \<Rightarrow> nat \<Rightarrow> int list" where
  "colCells b col = map (\<lambda>row. cellAt b row col) [0..<9]"

definition boxIndices :: "nat \<Rightarrow> nat \<Rightarrow> cell list" where
  "boxIndices boxRow boxCol =
     List.product [3 * boxRow..<3 * boxRow + 3] [3 * boxCol..<3 * boxCol + 3]"

definition boxCells :: "board \<Rightarrow> nat \<Rightarrow> nat \<Rightarrow> int list" where
  "boxCells b boxRow boxCol = map (\<lambda>(row, col). cellAt b row col) (boxIndices boxRow boxCol)"

text \<open>The other cells of the three units of a cell, and the test that a value already
  occurs among them.\<close>

definition rowPeers :: "board \<Rightarrow> nat \<Rightarrow> nat \<Rightarrow> int list" where
  "rowPeers b row col = map (\<lambda>c. cellAt b row c) (filter (\<lambda>c. c \<noteq> col) [0..<9])"

definition colPeers :: "board \<Rightarrow> nat \<Rightarrow> nat \<Rightarrow> int list" where
  "colPeers b row col = map (\<lambda>r. cellAt b r col) (filter (\<lambda>r. r \<noteq> row) [0..<9])"

definition boxPeers :: "board \<Rightarrow> nat \<Rightarrow> nat \<Rightarrow> int list" where
  "boxPeers b row col =
     map (\<lambda>(r, c). cellAt b r c)
       (filter (\<lambda>rc. rc \<noteq> (row, col)) (boxIndices (row div 3) (col div 3)))"

definition createsDuplicate :: "board \<Rightarrow> int \<Rightarrow> nat \<Rightarrow> nat \<Rightarrow> bool" where
  "createsDuplicate b v row col =
     (v \<in> set (rowPeers b row col) \<or> v \<in> set (colPeers b row col) \<or> v \<in> set (boxPeers b row col))"

text \<open>What \<open>wouldWork\<close> computes, as a function of the board: with the value placed, the
  three units of the cell hold no duplicate.\<close>

definition placeOk :: "board \<Rightarrow> int \<Rightarrow> nat \<Rightarrow> nat \<Rightarrow> bool" where
  "placeOk b v row col =
     (duplicateFree (rowCells (cellSet b row col v) row)
      \<and> duplicateFree (colCells (cellSet b row col v) col)
      \<and> duplicateFree (boxCells (cellSet b row col v) (row div 3) (col div 3)))"

section \<open>Candidate sets and one propagation pass\<close>

text \<open>\<open>wouldWork\<close> writes the value into the board, runs the three unit checks of the cell
  and writes 0 back before each return.\<close>

definition wouldWork :: "bool \<Rightarrow> int \<Rightarrow> nat \<Rightarrow> nat \<Rightarrow> puzzle \<Rightarrow> (bool \<times> puzzle) \<times> msg list" where
  "wouldWork vb v atRow atCol p =
     (let b1 = cellSet (board p) atRow atCol v;
          p2 = p\<lparr>board := cellSet b1 atRow atCol 0\<rparr> in
      case isRowOrColOk vb b1 atRow ROW of (rowOk, m1) \<Rightarrow>
        if \<not> rowOk then ((False, p2), m1)
        else (case isRowOrColOk vb b1 atCol COL of (colOk, m2) \<Rightarrow>
                if \<not> colOk then ((False, p2), m1 @ m2)
                else (case isSubmatrixOk vb b1 (3 * (atRow div 3)) (3 * (atCol div 3)) of
                        (subOk, m3) \<Rightarrow> ((subOk, p2), m1 @ m2 @ m3))))"

text \<open>The erase-while-iterating loop of \<open>trimPossibilities\<close> over one candidate set, in
  ascending order: a value that would not work is erased, the others are kept.\<close>

fun trimSet :: "bool \<Rightarrow> nat \<Rightarrow> nat \<Rightarrow> int list \<Rightarrow> puzzle \<Rightarrow> (int list \<times> puzzle) \<times> msg list" where
  "trimSet vb row col [] p = (([], p), [])"
| "trimSet vb row col (v # vs) p =
     (case wouldWork vb v row col p of ((ok, p1), m1) \<Rightarrow>
        (case trimSet vb row col vs p1 of ((vs', p2), m2) \<Rightarrow>
           ((if ok then v # vs' else vs', p2), m1 @ m2)))"

definition allCells :: "cell list" where
  "allCells = List.product [0..<9] [0..<9]"

text \<open>\<open>setAllPossibilities\<close>: every cell whose value is 0 gets a fresh set 1..9, every
  other cell a null pointer.\<close>

definition setAllPossibilities :: "puzzle \<Rightarrow> puzzle" where
  "setAllPossibilities p =
     fold (\<lambda>(row, col) q.
             if cellAt (board q) row col = 0
             then q\<lparr>possibilities :=
                     AList.update (row, col) [1, 2, 3, 4, 5, 6, 7, 8, 9] (possibilities q)\<rparr>
             else q\<lparr>possibilities := AList.delete (row, col) (possibilities q)\<rparr>)
       allCells p"

text \<open>The body of the two nested loops of \<open>trimPossibilities\<close> for one cell, with the
  running counter \<open>numBlank\<close>.  The first component of the result says whether the body
  executed \<open>return -1\<close>.\<close>

definition trimCell ::
  "bool \<Rightarrow> nat \<Rightarrow> nat \<Rightarrow> puzzle \<Rightarrow> int \<Rightarrow> (bool \<times> puzzle \<times> int) \<times> msg list" where
  "trimCell vb row col p numBlank =
     (case map_of (possibilities p) (row, col) of
        None \<Rightarrow> ((False, p, numBlank), [])
      | Some s \<Rightarrow>
          (case trimSet vb row col s p of ((s', p1), m1) \<Rightarrow>
             (let p2 = p1\<lparr>possibilities := AList.update (row, col) s' (possibilities p1)\<rparr>;
                  m2 = (if vb then [NumPossibilities row col s'] else [])
              in if length s' = 0 then ((True, p2, - 1), m1 @ m2)
                 else if length s' = 1 then
                   ((False,
                     p2\<lparr>board := cellSet (board p2) row col (hd s'),
                        possibilities := AList.delete (row, col) (possibilities p2)\<rparr>,
                     numBlank),
                    m1 @ m2 @ (if vb then [GonnaSet (hd s')] else []))
                 else
                   ((False,
                     (if length s' < minPossibilities p2
                      then p2\<lparr>minPossibilities := length s', minRow := row, minCol := col\<rparr>
                      else p2),
                     numBlank + 1),
                    m1 @ m2))))"

text \<open>The two nested loops, over the cells in row-major order.  The result is the
  returned number and the object as the pass leaves it.\<close>

fun trimLoop :: "bool \<Rightarrow> cell list \<Rightarrow> puzzle \<Rightarrow> int \<Rightarrow> (int \<times> puzzle) \<times> msg list" where
  "trimLoop vb [] p numBlank = ((numBlank, p), if vb then [TrimReturning numBlank] else [])"
| "trimLoop vb ((row, col) # rest) p numBlank =
     (case trimCell vb row col p numBlank of
        ((returned, p', numBlank'), m) \<Rightarrow>
          if returned then ((- 1, p'), m)
          else (case trimLoop vb rest p' numBlank' of (r, m') \<Rightarrow> (r, m @ m')))"

definition trimPossibilities :: "bool \<Rightarrow> puzzle \<Rightarrow> (int \<times> puzzle) \<times> msg list" where
  "trimPossibilities vb p =
     (let p0 = p\<lparr>minPossibilities := 10, minRow := 10, minCol := 10\<rparr> in
      case trimLoop vb allCells p0 0 of
        (r, m) \<Rightarrow> (r, (if vb then [PrintBoard (board p0)] else []) @ m))"

section \<open>The propagation loop and the branch search of \<open>solve\<close>\<close>

text \<open>The number of cells of the 9x9 table whose candidate pointer is not null.\<close>

definition numCandidateSets :: "puzzle \<Rightarrow> nat" where
  "numCandidateSets p = length (filter (\<lambda>rc. map_of (possibilities p) rc \<noteq> None) allCells)"

lemma cellSet_cellSet: "cellSet (cellSet b row col v) row col w = cellSet b row col w"
  by (cases "row < length b") (simp_all add: cellSet_def list_update_beyond)

lemma cellSet_same: "cellAt b row col = v \<Longrightarrow> cellSet b row col v = b"
  by (auto simp: cellSet_def cellAt_def)

lemma wouldWork_state:
  "wouldWork vb v row col p = ((ok, p1), m1) \<Longrightarrow> p1 = p\<lparr>board := cellSet (board p) row col 0\<rparr>"
  by (auto simp: wouldWork_def Let_def cellSet_cellSet split: prod.splits if_splits)

lemma trimSet_state:
  "trimSet vb row col vs p = ((vs', p1), m1) \<Longrightarrow>
     p1 = (if vs = [] then p else p\<lparr>board := cellSet (board p) row col 0\<rparr>)"
proof (induction vs arbitrary: p vs' p1 m1)
  case Nil
  then show ?case by simp
next
  case (Cons v vs)
  obtain ok q m where w: "wouldWork vb v row col p = ((ok, q), m)"
    by (metis prod.exhaust)
  obtain vs2 q2 m2 where t: "trimSet vb row col vs q = ((vs2, q2), m2)"
    by (metis prod.exhaust)
  have q: "q = p\<lparr>board := cellSet (board p) row col 0\<rparr>" by (rule wouldWork_state[OF w])
  have "q2 = (if vs = [] then q else q\<lparr>board := cellSet (board q) row col 0\<rparr>)"
    by (rule Cons.IH[OF t])
  moreover have "p1 = q2" using Cons.prems w t by simp
  ultimately show ?case by (simp add: q cellSet_cellSet)
qed

lemma trimSet_possibilities:
  "trimSet vb row col vs p = ((vs', p1), m1) \<Longrightarrow> possibilities p1 = possibilities p"
  by (drule trimSet_state) (simp split: if_splits)

lemma list_shape: "xs = [] \<or> (\<exists>v. xs = [v]) \<or> 2 \<le> length xs"
  by (cases xs rule: remdups_adj.cases) auto

text \<open>What the body does to the table of candidate sets and to the counter.\<close>

lemma trimCell_possibilities:
  assumes "trimCell vb row col p k = ((ret, p', k'), m)"
  shows "map_of (possibilities p) (row, col) = None \<longrightarrow> \<not> ret \<and> p' = p \<and> k' = k"
    and "\<forall>s. map_of (possibilities p) (row, col) = Some s \<longrightarrow>
           (\<exists>s'. fst (fst (trimSet vb row col s p)) = s'
              \<and> (ret \<longleftrightarrow> s' = [])
              \<and> (s' = [] \<longrightarrow> map_of (possibilities p') = (map_of (possibilities p))((row, col) \<mapsto> []))
              \<and> ((\<exists>v. s' = [v]) \<longrightarrow>
                    map_of (possibilities p') = (map_of (possibilities p))((row, col) := None)
                    \<and> k' = k)
              \<and> (2 \<le> length s' \<longrightarrow>
                    map_of (possibilities p') = (map_of (possibilities p))((row, col) \<mapsto> s')
                    \<and> k' = k + 1))"
proof -
  show "map_of (possibilities p) (row, col) = None \<longrightarrow> \<not> ret \<and> p' = p \<and> k' = k"
    using assms by (auto simp: trimCell_def)
  show "\<forall>s. map_of (possibilities p) (row, col) = Some s \<longrightarrow>
           (\<exists>s'. fst (fst (trimSet vb row col s p)) = s'
              \<and> (ret \<longleftrightarrow> s' = [])
              \<and> (s' = [] \<longrightarrow> map_of (possibilities p') = (map_of (possibilities p))((row, col) \<mapsto> []))
              \<and> ((\<exists>v. s' = [v]) \<longrightarrow>
                    map_of (possibilities p') = (map_of (possibilities p))((row, col) := None)
                    \<and> k' = k)
              \<and> (2 \<le> length s' \<longrightarrow>
                    map_of (possibilities p') = (map_of (possibilities p))((row, col) \<mapsto> s')
                    \<and> k' = k + 1))"
  proof (intro allI impI)
    fix s assume s: "map_of (possibilities p) (row, col) = Some s"
    obtain s' p1 m1 where ts: "trimSet vb row col s p = ((s', p1), m1)"
      by (metis prod.exhaust)
    have p1: "possibilities p1 = possibilities p" by (rule trimSet_possibilities[OF ts])
    consider "s' = []" | v where "s' = [v]" | "2 \<le> length s'"
      using list_shape[of s'] by blast
    then show "\<exists>s'. fst (fst (trimSet vb row col s p)) = s'
              \<and> (ret \<longleftrightarrow> s' = [])
              \<and> (s' = [] \<longrightarrow> map_of (possibilities p') = (map_of (possibilities p))((row, col) \<mapsto> []))
              \<and> ((\<exists>v. s' = [v]) \<longrightarrow>
                    map_of (possibilities p') = (map_of (possibilities p))((row, col) := None)
                    \<and> k' = k)
              \<and> (2 \<le> length s' \<longrightarrow>
                    map_of (possibilities p') = (map_of (possibilities p))((row, col) \<mapsto> s')
                    \<and> k' = k + 1)"
    proof cases
      case 1
      then show ?thesis using s ts p1 assms
        by (auto simp: trimCell_def Let_def update_conv')
    next
      case 2
      then show ?thesis using s ts p1 assms
        by (auto simp: trimCell_def Let_def update_conv' delete_conv')
    next
      case 3
      then have "s' \<noteq> []" "length s' \<noteq> Suc 0" by auto
      then show ?thesis using 3 s ts p1 assms
        by (auto simp: trimCell_def Let_def update_conv' split: if_splits)
    qed
  qed
qed

lemma trimCell_count:
  assumes "trimCell vb row col p k = ((ret, p', k'), m)" "\<not> ret"
  shows "k' = k + (if map_of (possibilities p') (row, col) \<noteq> None then 1 else 0)"
    and "\<forall>rc. rc \<noteq> (row, col) \<longrightarrow> map_of (possibilities p') rc = map_of (possibilities p) rc"
    and "\<forall>rc. map_of (possibilities p') rc \<noteq> None \<longrightarrow> map_of (possibilities p) rc \<noteq> None"
proof -
  note f = trimCell_possibilities[OF assms(1)]
  show "k' = k + (if map_of (possibilities p') (row, col) \<noteq> None then 1 else 0)"
  proof (cases "map_of (possibilities p) (row, col)")
    case None
    then show ?thesis using f(1) by simp
  next
    case (Some s)
    then show ?thesis using f(2) assms(2) list_shape[of "fst (fst (trimSet vb row col s p))"]
      by auto
  qed
  show "\<forall>rc. rc \<noteq> (row, col) \<longrightarrow> map_of (possibilities p') rc = map_of (possibilities p) rc"
  proof (cases "map_of (possibilities p) (row, col)")
    case None
    then show ?thesis using f(1) by simp
  next
    case (Some s)
    then show ?thesis using f(2) assms(2) list_shape[of "fst (fst (trimSet vb row col s p))"]
      by auto
  qed
  show "\<forall>rc. map_of (possibilities p') rc \<noteq> None \<longrightarrow> map_of (possibilities p) rc \<noteq> None"
  proof (cases "map_of (possibilities p) (row, col)")
    case None
    then show ?thesis using f(1) by simp
  next
    case (Some s)
    then show ?thesis using f(2) assms(2) list_shape[of "fst (fst (trimSet vb row col s p))"]
      by (auto split: if_splits)
  qed
qed

lemma trimLoop_Cons:
  "trimCell vb row col p k = ((ret, p1, k1), m1) \<Longrightarrow>
     trimLoop vb ((row, col) # rest) p k =
       (if ret then ((- 1, p1), m1)
        else (case trimLoop vb rest p1 k1 of (r, m') \<Rightarrow> (r, m1 @ m')))"
  by simp

declare trimLoop.simps(2) [simp del]

lemma trimLoop_count:
  "trimLoop vb cs p k = ((n, p'), m) \<Longrightarrow> n \<noteq> - 1 \<Longrightarrow> 0 \<le> k \<Longrightarrow> distinct cs \<Longrightarrow>
     n = k + int (length (filter (\<lambda>rc. map_of (possibilities p') rc \<noteq> None) cs))
     \<and> (\<forall>rc. rc \<notin> set cs \<longrightarrow> map_of (possibilities p') rc = map_of (possibilities p) rc)
     \<and> (\<forall>rc. map_of (possibilities p') rc \<noteq> None \<longrightarrow> map_of (possibilities p) rc \<noteq> None)"
proof (induction cs arbitrary: p k n p' m)
  case Nil
  then show ?case by (auto split: if_splits)
next
  case (Cons rc cs)
  obtain row col where rc: "rc = (row, col)" by (cases rc)
  have d: "distinct cs" "rc \<notin> set cs" using Cons.prems(4) by auto
  obtain ret p1 k1 m1 where tc: "trimCell vb row col p k = ((ret, p1, k1), m1)"
    by (metis prod.exhaust)
  have nret: "\<not> ret" using Cons.prems(1,2) by (auto simp: rc trimLoop_Cons[OF tc] split: if_splits)
  obtain m3 where tl: "trimLoop vb cs p1 k1 = ((n, p'), m3)"
    using Cons.prems(1) nret by (auto simp: rc trimLoop_Cons[OF tc] split: prod.splits)
  note c = trimCell_count[OF tc nret]
  have k1: "0 \<le> k1" using c(1) Cons.prems(3) by simp
  from Cons.IH[OF tl Cons.prems(2) k1 d(1)]
  have ih: "n = k1 + int (length (filter (\<lambda>rc. map_of (possibilities p') rc \<noteq> None) cs))"
    "\<forall>rc. rc \<notin> set cs \<longrightarrow> map_of (possibilities p') rc = map_of (possibilities p1) rc"
    "\<forall>rc. map_of (possibilities p') rc \<noteq> None \<longrightarrow> map_of (possibilities p1) rc \<noteq> None"
    by auto
  have e: "map_of (possibilities p') rc = map_of (possibilities p1) rc"
    using ih(2) d(2) by blast
  have c1: "n = k + int (length (filter (\<lambda>rc. map_of (possibilities p') rc \<noteq> None) (rc # cs)))"
    using ih(1) c(1) e by (simp add: rc)
  have c2: "\<forall>x. x \<notin> set (rc # cs) \<longrightarrow> map_of (possibilities p') x = map_of (possibilities p) x"
    using ih(2) c(2) by (simp add: rc)
  have c3: "\<forall>x. map_of (possibilities p') x \<noteq> None \<longrightarrow> map_of (possibilities p) x \<noteq> None"
    using ih(3) c(3) by blast
  show ?case using c1 c2 c3 by blast
qed

lemma length_filter_mono:
  "(\<And>x. x \<in> set xs \<Longrightarrow> P x \<Longrightarrow> Q x) \<Longrightarrow> length (filter P xs) \<le> length (filter Q xs)"
  by (induction xs) auto

lemma distinct_allCells: "distinct allCells"
  by (simp add: allCells_def distinct_product)

lemma trimPossibilities_count:
  assumes "trimPossibilities vb p = ((n, p'), m)" "n \<noteq> - 1"
  shows "n = int (numCandidateSets p')" "numCandidateSets p' \<le> numCandidateSets p"
proof -
  define p0 where "p0 = p\<lparr>minPossibilities := 10, minRow := 10, minCol := 10\<rparr>"
  obtain m0 where tl: "trimLoop vb allCells p0 0 = ((n, p'), m0)"
    using assms(1) by (auto simp: trimPossibilities_def p0_def Let_def split: prod.splits)
  from trimLoop_count[OF tl assms(2) _ distinct_allCells]
  have c: "n = int (length (filter (\<lambda>rc. map_of (possibilities p') rc \<noteq> None) allCells))"
    and mono: "\<forall>rc. map_of (possibilities p') rc \<noteq> None \<longrightarrow> map_of (possibilities p0) rc \<noteq> None"
    by auto
  show "n = int (numCandidateSets p')" using c by (simp add: numCandidateSets_def)
  have "length (filter (\<lambda>rc. map_of (possibilities p') rc \<noteq> None) allCells)
        \<le> length (filter (\<lambda>rc. map_of (possibilities p0) rc \<noteq> None) allCells)"
    using mono by (intro length_filter_mono) auto
  then show "numCandidateSets p' \<le> numCandidateSets p"
    by (simp add: numCandidateSets_def p0_def)
qed

text \<open>The \<open>while (true)\<close> loop of \<open>solve\<close> up to the point where it returns or reaches the
  branch: a pass that returns -1 ends it (the puzzle cannot be solved), a pass that
  returns 0 ends it (solved, and the solution is printed), and a pass that returns the
  number of the previous pass hands over to the branch search.  \<open>prevNumBlank\<close> is the
  local variable of that name.\<close>

datatype outcome = Unsolvable | Solved | Stalled

function solveLoop :: "bool \<Rightarrow> int \<Rightarrow> puzzle \<Rightarrow> (outcome \<times> puzzle) \<times> msg list" where
  "solveLoop vb prevNumBlank p =
     (case trimPossibilities vb p of ((numBlank, p'), m) \<Rightarrow>
        if numBlank = - 1 then ((Unsolvable, p'), m)
        else if numBlank = 0 then ((Solved, p'), m @ [SolutionHeader, PrintBoard (board p')])
        else if numBlank = prevNumBlank then ((Stalled, p'), m)
        else (case solveLoop vb numBlank p' of (r, m') \<Rightarrow> (r, m @ m')))"
  by pat_completeness auto
termination
proof (relation "measure (\<lambda>(vb, prev, p).
         2 * numCandidateSets p + (if prev = int (numCandidateSets p) then 0 else 1))")
  show "wf (measure (\<lambda>(vb, prev, p).
         2 * numCandidateSets p + (if prev = int (numCandidateSets p) then 0 else 1)))"
    by simp
next
  fix vb :: bool and prevNumBlank :: int and p x m numBlank p'
  assume a: "(x, m) = trimPossibilities vb p" "(numBlank, p') = x"
    "numBlank \<noteq> - 1" "numBlank \<noteq> 0" "numBlank \<noteq> prevNumBlank"
  have t: "trimPossibilities vb p = ((numBlank, p'), m)" using a(1,2) by simp
  from trimPossibilities_count[OF t a(3)] a(5)
  show "((vb, numBlank, p'), (vb, prevNumBlank, p)) \<in> measure (\<lambda>(vb, prev, p).
         2 * numCandidateSets p + (if prev = int (numCandidateSets p) then 0 else 1))"
    by auto
qed

text \<open>The copy of a solved sub-puzzle into the blanks of this one.\<close>

definition copyBlanks :: "puzzle \<Rightarrow> puzzle \<Rightarrow> puzzle" where
  "copyBlanks p subPuzzle =
     fold (\<lambda>(row, col) q.
             if cellAt (board q) row col = 0
             then q\<lparr>board := cellSet (board q) row col (getValue subPuzzle row col)\<rparr>
             else q)
       allCells p"

text \<open>The \<open>for\<close> loop over the candidate set of the cell \<open>(minRow, minCol)\<close>, in ascending
  order.  \<open>subSolve\<close> is the recursive call \<open>subPuzzle->solve()\<close>; when it gives no result
  the loop gives none.\<close>

fun tryCandidates ::
  "(puzzle \<Rightarrow> ((bool \<times> puzzle) \<times> msg list) option) \<Rightarrow> bool \<Rightarrow> puzzle \<Rightarrow> int list
     \<Rightarrow> ((bool \<times> puzzle) \<times> msg list) option" where
  "tryCandidates subSolve vb p [] = Some ((False, p), [])"
| "tryCandidates subSolve vb p (v # vs) =
     (case subSolve (setValue (SudokuPuzzle (board p)) (minRow p) (minCol p) v) of
        None \<Rightarrow> None
      | Some ((solved, subPuzzle), m1) \<Rightarrow>
          if solved
          then Some ((True, copyBlanks p subPuzzle), (if vb then [CreatingSubPuzzle v] else []) @ m1)
          else (case tryCandidates subSolve vb p vs of
                  None \<Rightarrow> None
                | Some (r, m2) \<Rightarrow> Some (r, (if vb then [CreatingSubPuzzle v] else []) @ m1 @ m2)))"

text \<open>\<open>solve\<close>, with the depth of the recursion bounded by the first argument: \<open>None\<close>
  means that the bound was reached, or that the branch would read
  \<open>possibilities[minRow][minCol]\<close> outside the table or through a null pointer.  The
  recursive call passes no argument, so the sub-puzzle is solved with \<open>verbose = false\<close>.\<close>

fun solve_fuel :: "nat \<Rightarrow> bool \<Rightarrow> puzzle \<Rightarrow> ((bool \<times> puzzle) \<times> msg list) option" where
  "solve_fuel 0 vb p = None"
| "solve_fuel (Suc depth) vb p =
     (case solveLoop vb 50 (setAllPossibilities p) of
        ((Unsolvable, p'), m) \<Rightarrow> Some ((False, p'), m)
      | ((Solved, p'), m) \<Rightarrow> Some ((True, p'), m)
      | ((Stalled, p'), m) \<Rightarrow>
          if minRow p' < 9 \<and> minCol p' < 9 then
            (case map_of (possibilities p') (minRow p', minCol p') of
               None \<Rightarrow> None
             | Some s \<Rightarrow>
                 (case tryCandidates (solve_fuel depth False) vb p' s of
                    None \<Rightarrow> None
                  | Some (r, m') \<Rightarrow>
                      Some (r, m @ (if vb then [MinPossibilitiesIs (minPossibilities p')
                                                  (minRow p') (minCol p')] else []) @ m')))
          else None)"

text \<open>The public method: the recursion is allowed 81 nested sub-puzzles.\<close>

definition solve :: "bool \<Rightarrow> puzzle \<Rightarrow> ((bool \<times> puzzle) \<times> msg list) option" where
  "solve vb p = solve_fuel 82 vb p"

section \<open>The constructor from a file\<close>

text \<open>\<open>std::stoi\<close> belongs to the C++ library, not to the program; it is modelled from its
  documented behaviour for base 10: leading white space is skipped, an optional sign and
  the longest run of decimal digits are read, anything after them is ignored, and it
  throws when there is no digit or when the value does not fit an \<open>int\<close> (here \<open>None\<close>).\<close>

definition isspace :: "char \<Rightarrow> bool" where
  "isspace c = (c \<in> set [CHR '' '', CHR 0x09, CHR 0x0A, CHR 0x0B, CHR 0x0C, CHR 0x0D])"

definition isdigit :: "char \<Rightarrow> bool" where
  "isdigit c = (48 \<le> (of_char c :: nat) \<and> (of_char c :: nat) \<le> 57)"

definition digitsValue :: "string \<Rightarrow> nat" where
  "digitsValue ds = foldl (\<lambda>n c. 10 * n + (of_char c - 48)) 0 ds"

definition stoi :: "string \<Rightarrow> int option" where
  "stoi str =
     (let s1 = dropWhile isspace str;
          neg = (s1 \<noteq> [] \<and> hd s1 = CHR ''-'');
          s2 = (if s1 \<noteq> [] \<and> (hd s1 = CHR ''-'' \<or> hd s1 = CHR ''+'') then tl s1 else s1);
          ds = takeWhile isdigit s2;
          v = (if neg then - int (digitsValue ds) else int (digitsValue ds))
      in if ds = [] then None
         else if v < - 2147483648 \<or> 2147483647 < v then None
         else Some v)"

text \<open>The tokens that \<open>getline(lineStream, value, ',')\<close> yields for one line: the text
  between commas; after a trailing comma the stream is at its end and yields no further
  token.\<close>

fun splitLine :: "string \<Rightarrow> string list" where
  "splitLine [] = []"
| "splitLine (c # cs) =
     (if c = CHR '','' then [] # splitLine cs
      else (case splitLine cs of [] \<Rightarrow> [[c]] | t # ts \<Rightarrow> (c # t) # ts))"

text \<open>The value stored for a token: a space, the empty string and \<open>"0"\<close> stand for a blank,
  any other token goes through \<open>stoi\<close>.\<close>

definition tokenValue :: "string \<Rightarrow> int option" where
  "tokenValue tok = (if tok = '' '' \<or> tok = [] \<or> tok = ''0'' then Some 0 else stoi tok)"

text \<open>The two reading loops.  \<open>board[row][col]\<close> designates the \<open>int\<close> at offset
  \<open>9 * row + col\<close> from the start of \<open>board\<close>, the nine rows of \<open>int board[9][9]\<close> lying one
  after the other, and nothing in the loops compares \<open>row\<close> or \<open>col\<close> with 9.  A store at an
  offset below 81 therefore reaches the cell \<open>(offset div 9, offset mod 9)\<close>; a store at a
  higher offset falls outside \<open>board\<close>: it leaves the 81 cells as they are and is listed in
  \<open>outside\<close>, what it overwrites there being left open.  When \<open>stoi\<close> throws, the \<open>catch\<close>
  block is entered with the memory as it stands (\<open>Thrown\<close>).\<close>

record reading =
  cells :: board
  outside :: "(nat \<times> int) list"

definition storeAt :: "reading \<Rightarrow> nat \<Rightarrow> nat \<Rightarrow> int \<Rightarrow> reading" where
  "storeAt st row col v =
     (let offset = 9 * row + col in
      if offset < 81 then st\<lparr>cells := cellSet (cells st) (offset div 9) (offset mod 9) v\<rparr>
      else st\<lparr>outside := outside st @ [(offset, v)]\<rparr>)"

datatype readResult = Read reading | Thrown reading

fun readTokens :: "reading \<Rightarrow> nat \<Rightarrow> nat \<Rightarrow> string list \<Rightarrow> readResult" where
  "readTokens st row col [] = Read st"
| "readTokens st row col (tok # toks) =
     (case tokenValue tok of
        None \<Rightarrow> Thrown st
      | Some v \<Rightarrow> readTokens (storeAt st row col v) row (col + 1) toks)"

fun readLines :: "reading \<Rightarrow> nat \<Rightarrow> string list \<Rightarrow> readResult" where
  "readLines st row [] = Read st"
| "readLines st row (line # rest) =
     (case readTokens st row 0 (splitLine line) of
        Read st' \<Rightarrow> readLines st' (row + 1) rest
      | Thrown st' \<Rightarrow> Thrown st')"

text \<open>The constructor \<open>SudokuPuzzle(const string&)\<close>.  The file is the list of its lines,
  or \<open>None\<close> when it cannot be opened; \<open>uninitialized\<close> is what the memory of \<open>board\<close>
  holds when the constructor starts.  The constructor has one way out, its end: both
  error branches print to \<open>cerr\<close> and fall through, the candidate pointers are set to null
  and the board is printed.  The result is the object, what was written to \<open>cerr\<close> and
  what was written to \<open>cout\<close>.  When stores fell outside \<open>board\<close> the object is given as
  \<open>Overwritten\<close>, with its board and those stores: its other members are not described.\<close>

datatype errmsg = FailedToOpenFile | ExceptionInConstructor

datatype construction = Object puzzle | Overwritten board "(nat \<times> int) list"

definition constructed :: "reading \<Rightarrow> construction" where
  "constructed st =
     (if outside st = [] then Object (SudokuPuzzle (cells st))
      else Overwritten (cells st) (outside st))"

definition SudokuPuzzleFromFile ::
  "board \<Rightarrow> string list option \<Rightarrow> construction \<times> errmsg list \<times> msg list" where
  "SudokuPuzzleFromFile uninitialized file =
     (case file of
        None \<Rightarrow>
          (Object (SudokuPuzzle uninitialized), [FailedToOpenFile], [PrintBoard uninitialized])
      | Some ls \<Rightarrow>
          (case readLines \<lparr>cells = uninitialized, outside = []\<rparr> 0 ls of
             Read st \<Rightarrow> (constructed st, [], [PrintBoard (cells st)])
           | Thrown st \<Rightarrow> (constructed st, [ExceptionInConstructor], [PrintBoard (cells st)])))"










section \<open>Consistency of the board and the table of candidate sets\<close>

text \<open>Between the steps of \<open>solve\<close> a cell of the table holds a set exactly when the cell
  is blank on the board, and a set is an ascending list of at most nine non-zero values.
  \<open>cluesKept b b'\<close> says that every cell that is filled in \<open>b\<close> holds the same value in
  \<open>b'\<close>.\<close>

definition cellOk :: "puzzle \<Rightarrow> nat \<Rightarrow> nat \<Rightarrow> bool" where
  "cellOk p row col =
     (case map_of (possibilities p) (row, col) of
        None \<Rightarrow> cellAt (board p) row col \<noteq> 0
      | Some s \<Rightarrow> cellAt (board p) row col = 0 \<and> 0 \<notin> set s \<and> length s \<le> 9
                  \<and> sorted s \<and> distinct s)"

definition tableOk :: "puzzle \<Rightarrow> bool" where
  "tableOk p = (wf_board (board p) \<and> list_all (\<lambda>(row, col). cellOk p row col) allCells)"

definition cluesKept :: "board \<Rightarrow> board \<Rightarrow> bool" where
  "cluesKept b b' =
     list_all (\<lambda>(row, col). cellAt b row col = 0 \<or> cellAt b' row col = cellAt b row col) allCells"

text \<open>The order in which a pass visits the cells, and what the pass has recorded about
  the smallest candidate set among the cells \<open>S\<close> visited so far: every set kept has at least
  two values, none is smaller than \<open>minPossibilities\<close>, a set of that size lies at the
  recorded cell or after it, and the recorded cell holds a set of that size (10 is the
  value before any set was recorded).\<close>

definition rowMajorLess :: "cell \<Rightarrow> cell \<Rightarrow> bool" where
  "rowMajorLess x y = (fst x < fst y \<or> (fst x = fst y \<and> snd x < snd y))"

definition minTracked :: "cell set \<Rightarrow> puzzle \<Rightarrow> bool" where
  "minTracked S q =
     ((\<forall>x\<in>S. \<forall>t. map_of (possibilities q) x = Some t \<longrightarrow>
          2 \<le> length t \<and> minPossibilities q \<le> length t
          \<and> (length t = minPossibilities q \<longrightarrow>
                (minRow q, minCol q) = x \<or> rowMajorLess (minRow q, minCol q) x))
      \<and> (minPossibilities q \<noteq> 10 \<longrightarrow>
            (minRow q, minCol q) \<in> S
            \<and> (\<exists>s. map_of (possibilities q) (minRow q, minCol q) = Some s
                     \<and> length s = minPossibilities q))
      \<and> minPossibilities q \<le> 10)"

text \<open>What one pass does to a cell, between the object \<open>p\<close> before the pass and the object
  \<open>p'\<close> after it.  \<open>boardWhenReached p p' x\<close> is the grid as the pass finds it at the cell \<open>x\<close>:
  the cells before \<open>x\<close> as the pass leaves them, the others as they were.  A cell is
  \<open>cellTrimmed\<close> if, having no set, it is as it was, or if the values of its set that
  \<open>placeOk\<close> accepts on that grid are one value, which is then on the board with the set
  gone, or at least two, which are then the set of the cell, still blank.  The pass
  \<open>stoppedAt\<close> a cell if none of the values of its set is accepted, the set then being
  empty.  A cell is \<open>untouched\<close> if its value and its set are as they were.\<close>

definition boardWhenReached :: "puzzle \<Rightarrow> puzzle \<Rightarrow> cell \<Rightarrow> board" where
  "boardWhenReached p p' x =
     map (\<lambda>r. map (\<lambda>c. if rowMajorLess (r, c) x then cellAt (board p') r c
                        else cellAt (board p) r c) [0..<9]) [0..<9]"

definition cellTrimmed :: "puzzle \<Rightarrow> puzzle \<Rightarrow> nat \<Rightarrow> nat \<Rightarrow> bool" where
  "cellTrimmed p p' row col =
     (case map_of (possibilities p) (row, col) of
        None \<Rightarrow> cellAt (board p') row col = cellAt (board p) row col
                 \<and> map_of (possibilities p') (row, col) = None
      | Some s \<Rightarrow>
          (let s' = filter (\<lambda>v. placeOk (boardWhenReached p p' (row, col)) v row col) s in
           if length s' = 0 then False
           else if length s' = 1
             then cellAt (board p') row col = hd s' \<and> cellAt (board p') row col \<noteq> 0
                  \<and> map_of (possibilities p') (row, col) = None
             else cellAt (board p') row col = 0
                  \<and> map_of (possibilities p') (row, col) = Some s'))"

definition stoppedAt :: "puzzle \<Rightarrow> puzzle \<Rightarrow> nat \<Rightarrow> nat \<Rightarrow> bool" where
  "stoppedAt p p' row col =
     (case map_of (possibilities p) (row, col) of
        None \<Rightarrow> False
      | Some s \<Rightarrow>
          filter (\<lambda>v. placeOk (boardWhenReached p p' (row, col)) v row col) s = []
          \<and> cellAt (board p') row col = 0
          \<and> map_of (possibilities p') (row, col) = Some [])"

definition untouched :: "puzzle \<Rightarrow> puzzle \<Rightarrow> nat \<Rightarrow> nat \<Rightarrow> bool" where
  "untouched p p' row col =
     (cellAt (board p') row col = cellAt (board p) row col
      \<and> map_of (possibilities p') (row, col) = map_of (possibilities p) (row, col))"

definition numBlankCells :: "board \<Rightarrow> nat" where
  "numBlankCells b = length (filter (\<lambda>x. cellAt b (fst x) (snd x) = 0) allCells)"

text \<open>What holds when the pass has gone through the cells \<open>seen\<close>.\<close>

definition passInv :: "puzzle \<Rightarrow> cell list \<Rightarrow> bool \<Rightarrow> puzzle \<Rightarrow> int \<Rightarrow> bool" where
  "passInv p seen ret q j =
     (tableOk q
      \<and> (\<forall>r c. r < 9 \<longrightarrow> c < 9 \<longrightarrow> (r, c) \<notin> set seen \<longrightarrow> untouched p q r c)
      \<and> (if ret
          then \<exists>row col sn. seen = sn @ [(row, col)] \<and> stoppedAt p q row col
                   \<and> (\<forall>x\<in>set sn. cellTrimmed p q (fst x) (snd x))
          else (\<forall>x\<in>set seen. cellTrimmed p q (fst x) (snd x))
               \<and> j = int (length (filter (\<lambda>x. cellAt (board q) (fst x) (snd x) = 0) seen))))"

text \<open>The object that \<open>solve\<close> builds for one candidate value of the recorded cell, and
  whether solving it succeeds.\<close>

definition subPuzzleFor :: "puzzle \<Rightarrow> int \<Rightarrow> puzzle" where
  "subPuzzleFor p v = setValue (SudokuPuzzle (board p)) (minRow p) (minCol p) v"

definition branchSolves :: "nat \<Rightarrow> puzzle \<Rightarrow> int \<Rightarrow> bool" where
  "branchSolves depth p v =
     (case solve_fuel depth False (subPuzzleFor p v) of
        Some ((solved, sub), m) \<Rightarrow> solved
      | None \<Rightarrow> False)"

text \<open>What the branch of \<open>solve\<close> returns and prints, stated over the candidates in
  ascending order: the candidates tried are those up to and including the first whose
  recursive \<open>solve\<close> succeeds, or all of them when none does.\<close>

definition triedCandidates :: "nat \<Rightarrow> puzzle \<Rightarrow> int list \<Rightarrow> int list" where
  "triedCandidates depth p s =
     (case find (branchSolves depth p) s of
        None \<Rightarrow> s
      | Some v \<Rightarrow> takeWhile (\<lambda>u. \<not> branchSolves depth p u) s @ [v])"

definition branchResult :: "nat \<Rightarrow> puzzle \<Rightarrow> int list \<Rightarrow> bool \<times> puzzle" where
  "branchResult depth p s =
     (case find (branchSolves depth p) s of
        None \<Rightarrow> (False, p)
      | Some v \<Rightarrow>
          (True, copyBlanks p (snd (fst (the (solve_fuel depth False (subPuzzleFor p v)))))))"

definition branchMessages :: "nat \<Rightarrow> bool \<Rightarrow> puzzle \<Rightarrow> int list \<Rightarrow> msg list" where
  "branchMessages depth vb p s =
     concat (map (\<lambda>v. (if vb then [CreatingSubPuzzle v] else [])
                       @ snd (the (solve_fuel depth False (subPuzzleFor p v))))
               (triedCandidates depth p s))"

section \<open>Sample grids\<close>

text \<open>\<open>puzzle3\<close> of \<open>main\<close>: a solved grid.\<close>

definition puzzle3 :: board where
  "puzzle3 = [[8, 2, 7, 1, 5, 4, 3, 9, 6], [9, 6, 5, 3, 2, 7, 1, 4, 8], [3, 4, 1, 6, 8, 9, 7, 5, 2],
              [5, 9, 3, 4, 6, 8, 2, 7, 1], [4, 7, 2, 5, 1, 3, 6, 8, 9], [6, 1, 8, 9, 7, 2, 4, 3, 5],
              [7, 8, 6, 2, 3, 5, 9, 1, 4], [1, 5, 4, 7, 9, 6, 8, 2, 3], [2, 3, 9, 8, 4, 1, 5, 6, 7]]"

text \<open>\<open>puzzle2\<close> of \<open>main\<close> (its row 6 holds the value 3 twice) with the cell (6, 0)
  blanked, and \<open>puzzle3\<close> with the cell (0, 0) blanked.\<close>

definition puzzle2Blank :: board where
  "puzzle2Blank = [[2, 9, 5, 7, 4, 3, 8, 6, 1], [4, 3, 1, 8, 6, 5, 9, 2, 7], [8, 7, 6, 1, 9, 2, 5, 4, 3],
                   [3, 8, 7, 4, 5, 9, 2, 1, 6], [6, 1, 2, 3, 8, 7, 4, 9, 5], [5, 4, 9, 2, 1, 6, 7, 3, 8],
                   [0, 6, 3, 5, 3, 4, 1, 8, 9], [9, 2, 8, 6, 7, 1, 3, 5, 4], [1, 5, 4, 9, 3, 8, 6, 7, 2]]"

definition puzzle3Blank :: board where
  "puzzle3Blank = [[0, 2, 7, 1, 5, 4, 3, 9, 6], [9, 6, 5, 3, 2, 7, 1, 4, 8], [3, 4, 1, 6, 8, 9, 7, 5, 2],
              [5, 9, 3, 4, 6, 8, 2, 7, 1], [4, 7, 2, 5, 1, 3, 6, 8, 9], [6, 1, 8, 9, 7, 2, 4, 3, 5],
              [7, 8, 6, 2, 3, 5, 9, 1, 4], [1, 5, 4, 7, 9, 6, 8, 2, 3], [2, 3, 9, 8, 4, 1, 5, 6, 7]]"

text \<open>\<open>puzzle3\<close> with three cells blanked and the 4 at (2, 1) replaced by 2: every unit is
  still free of duplicates, the cell (0, 0) can only hold 8, and after that no value is
  left for the cell (0, 1).\<close>

definition contradictionGrid :: board where
  "contradictionGrid =
     [[0, 0, 7, 1, 5, 4, 3, 9, 6], [9, 6, 5, 3, 2, 7, 1, 4, 8], [3, 2, 1, 6, 8, 9, 7, 5, 0],
      [5, 9, 3, 4, 6, 8, 2, 7, 1], [4, 7, 2, 5, 1, 3, 6, 8, 9], [6, 1, 8, 9, 7, 2, 4, 3, 5],
      [7, 8, 6, 2, 3, 5, 9, 1, 4], [1, 5, 4, 7, 9, 6, 8, 2, 3], [2, 3, 9, 8, 4, 1, 5, 6, 7]]"

text \<open>\<open>puzzle1\<close> of \<open>main\<close>: rows and columns are fine, the boxes are not.\<close>

definition puzzle1 :: board where
  "puzzle1 = [[1, 2, 3, 4, 5, 6, 7, 8, 9], [2, 3, 4, 5, 6, 7, 8, 9, 1], [3, 4, 5, 6, 7, 8, 9, 1, 2],
              [4, 5, 6, 7, 8, 9, 1, 2, 3], [5, 6, 7, 8, 9, 1, 2, 3, 4], [6, 7, 8, 9, 1, 2, 3, 4, 5],
              [7, 8, 9, 1, 2, 3, 4, 5, 6], [8, 9, 1, 2, 3, 4, 5, 6, 7], [9, 1, 2, 3, 4, 5, 6, 7, 8]]"


text \<open>Memory that holds -1 everywhere, and the text of \<open>puzzle3\<close> with its first cell left
  empty.\<close>

definition staleMemory :: board where
  "staleMemory = replicate 9 (replicate 9 (- 1))"


text \<open>\<open>puzzle3\<close> with the cells (0,3), (0,6), (1,3), (1,6) blanked: the values 1 and 3 can
  be exchanged between them, so propagation cannot decide these cells.\<close>

definition twoSolutions :: board where
  "twoSolutions =
     [[8, 2, 7, 0, 5, 4, 0, 9, 6], [9, 6, 5, 0, 2, 7, 0, 4, 8], [3, 4, 1, 6, 8, 9, 7, 5, 2],
      [5, 9, 3, 4, 6, 8, 2, 7, 1], [4, 7, 2, 5, 1, 3, 6, 8, 9], [6, 1, 8, 9, 7, 2, 4, 3, 5],
      [7, 8, 6, 2, 3, 5, 9, 1, 4], [1, 5, 4, 7, 9, 6, 8, 2, 3], [2, 3, 9, 8, 4, 1, 5, 6, 7]]"

text \<open>\<open>firstFailing\<close> is \<open>puzzle3\<close> with eight cells blanked: propagation stalls at once, the
  first candidate 4 of the cell (6, 2) leads to a contradiction and the second, 6, to a
  solution.  \<open>bothFailing\<close> has no duplicate in any unit but no completion: the 3 at
  (5, 2) stands where \<open>puzzle3\<close> has 8; propagation stalls and both candidates of the cell
  (3, 2) fail.\<close>

definition firstFailing :: board where
  "firstFailing =
     [[8, 2, 7, 1, 5, 4, 3, 9, 6], [9, 6, 5, 3, 2, 7, 1, 4, 8], [3, 4, 1, 6, 8, 9, 7, 5, 2],
      [5, 9, 3, 4, 6, 8, 2, 7, 1], [4, 7, 2, 5, 1, 3, 6, 8, 9], [6, 1, 8, 9, 7, 2, 4, 3, 5],
      [7, 8, 0, 2, 0, 5, 9, 1, 0], [1, 5, 0, 7, 0, 6, 8, 2, 0], [2, 3, 0, 8, 0, 1, 5, 6, 7]]"

definition bothFailing :: board where
  "bothFailing =
     [[8, 2, 7, 1, 5, 4, 3, 9, 6], [9, 6, 5, 3, 2, 7, 1, 4, 8], [3, 4, 1, 6, 8, 9, 7, 5, 2],
      [5, 9, 0, 4, 6, 0, 0, 0, 1], [4, 7, 0, 5, 1, 3, 0, 0, 9], [6, 1, 3, 9, 7, 0, 0, 0, 5],
      [7, 8, 6, 2, 3, 5, 9, 1, 4], [1, 5, 0, 7, 9, 6, 0, 0, 3], [2, 3, 9, 8, 4, 1, 5, 6, 7]]"

section \<open>The validator\<close>

lemma rowOrColLoop_fst:
  "fst (rowOrColLoop vb b row which vals cols) =
     (let xs = filter (\<lambda>v. v \<noteq> 0)
                 (map (\<lambda>col. if which = ROW then cellAt b row col else cellAt b col row) cols)
      in distinct xs \<and> set xs \<inter> vals = {})"
  by (induction cols arbitrary: vals) (auto simp: Let_def)

lemma isRowOrColOk_ROW: "fst (isRowOrColOk vb b row ROW) = duplicateFree (rowCells b row)"
  by (simp add: isRowOrColOk_def rowOrColLoop_fst duplicateFree_def rowCells_def)

lemma isRowOrColOk_COL: "fst (isRowOrColOk vb b col COL) = duplicateFree (colCells b col)"
  by (simp add: isRowOrColOk_def rowOrColLoop_fst duplicateFree_def colCells_def)

lemma submatrixLoop_fst:
  "fst (submatrixLoop vb b sr sc vals cs) =
     (let xs = filter (\<lambda>v. v \<noteq> 0) (map (\<lambda>(row, col). cellAt b row col) cs)
      in distinct xs \<and> set xs \<inter> vals = {})"
  by (induction vb b sr sc vals cs rule: submatrixLoop.induct) (auto simp: Let_def)

lemma isSubmatrixOk_fst:
  "fst (isSubmatrixOk vb b (3 * boxRow) (3 * boxCol)) = duplicateFree (boxCells b boxRow boxCol)"
  by (simp add: isSubmatrixOk_def submatrixLoop_fst duplicateFree_def boxCells_def boxIndices_def)

lemma rowsOrColsLoop_fst:
  "fst (rowsOrColsLoop vb b which is) = (\<forall>i\<in>set is. fst (isRowOrColOk vb b i which))"
  by (induction "is") (auto split: prod.splits)

lemma submatricesLoop_fst:
  "fst (submatricesLoop vb b cs) = (\<forall>(sr, sc)\<in>set cs. fst (isSubmatrixOk vb b sr sc))"
proof (induction cs)
  case Nil
  show ?case by simp
next
  case (Cons rc cs)
  obtain sr sc where rc: "rc = (sr, sc)" by (cases rc)
  show ?case using Cons.IH
    by (cases "isSubmatrixOk vb b sr sc"; cases "submatricesLoop vb b cs") (auto simp: rc)
qed

lemma all_less_3: "(\<forall>i<3::nat. P i) = (P 0 \<and> P (Suc 0) \<and> P (Suc (Suc 0)))"
  by (auto simp: numeral_3_eq_3 less_Suc_eq)

lemma areSubmatricesOk_fst:
  "fst (areSubmatricesOk vb b) = (\<forall>boxRow<3. \<forall>boxCol<3. duplicateFree (boxCells b boxRow boxCol))"
proof -
  have "fst (areSubmatricesOk vb b)
        = (\<forall>boxRow<3. \<forall>boxCol<3. fst (isSubmatrixOk vb b (3 * boxRow) (3 * boxCol)))"
    unfolding areSubmatricesOk_def submatricesLoop_fst all_less_3 by simp
  then show ?thesis by (simp only: isSubmatrixOk_fst)
qed

lemma isSolutionValid_fst:
  "fst (isSolutionValid vb b) =
     (fst (rowsOrColsLoop vb b ROW [0..<9]) \<and> fst (rowsOrColsLoop vb b COL [0..<9])
      \<and> fst (areSubmatricesOk vb b))"
  unfolding isSolutionValid_def
  by (cases "rowsOrColsLoop vb b ROW [0..<9]"; cases "rowsOrColsLoop vb b COL [0..<9]";
      cases "areSubmatricesOk vb b") (simp del: upt_rec_numeral rowsOrColsLoop.simps)

text \<open>Claim C4.  For every grid, \<open>isSolutionValid\<close> (which ignores blanks) returns true if
  and only if no non-zero value appears twice within any of the nine rows, the nine
  columns or the nine 3x3 boxes; zeros are never duplicates of each other.  The verbose
  flag plays no part in the answer.\<close>

theorem isSolutionValid_iff_no_duplicate:
  "fst (isSolutionValid vb b) =
     ((\<forall>row<9. duplicateFree (rowCells b row)) \<and>
      (\<forall>col<9. duplicateFree (colCells b col)) \<and>
      (\<forall>boxRow<3. \<forall>boxCol<3. duplicateFree (boxCells b boxRow boxCol)))"
  unfolding isSolutionValid_fst rowsOrColsLoop_fst isRowOrColOk_ROW isRowOrColOk_COL
    areSubmatricesOk_fst
  by (auto simp del: upt_rec_numeral)

theorem isSolutionValid_iff_no_duplicate_witness:
  "fst (isSolutionValid True puzzle3) \<and> duplicateFree (rowCells puzzle3 8)
   \<and> duplicateFree (colCells puzzle3 0) \<and> duplicateFree (boxCells puzzle3 2 1)"
proof -
  have "fst (isSolutionValid True puzzle3)" by code_simp
  then show ?thesis using isSolutionValid_iff_no_duplicate[of True puzzle3] by simp
qed

section \<open>The placement check\<close>

lemma wf_board_nth: "wf_board b \<Longrightarrow> row < 9 \<Longrightarrow> length (b ! row) = 9"
  by (simp add: wf_board_def list_all_length)

lemma wf_board_cellSet: "wf_board b \<Longrightarrow> wf_board (cellSet b row col v)"
  by (cases "row < length b")
     (auto simp: wf_board_def cellSet_def list_all_length nth_list_update list_update_beyond)

lemma cellAt_cellSet:
  "wf_board b \<Longrightarrow> row < 9 \<Longrightarrow> col < 9 \<Longrightarrow>
     cellAt (cellSet b row col v) r c = (if r = row \<and> c = col then v else cellAt b r c)"
  by (auto simp: cellAt_def cellSet_def wf_board_def list_all_length nth_list_update)

lemma wouldWork_fst:
  "fst (fst (wouldWork vb v row col p)) =
     (let b1 = cellSet (board p) row col v in
      duplicateFree (rowCells b1 row) \<and> duplicateFree (colCells b1 col)
      \<and> duplicateFree (boxCells b1 (row div 3) (col div 3)))"
  using isRowOrColOk_ROW[of vb "cellSet (board p) row col v" row]
        isRowOrColOk_COL[of vb "cellSet (board p) row col v" col]
        isSubmatrixOk_fst[of vb "cellSet (board p) row col v" "row div 3" "col div 3"]
  by (auto simp: wouldWork_def Let_def split: prod.splits)

lemma duplicateFree_placed:
  "distinct cs \<Longrightarrow> g c0 = 0 \<Longrightarrow> v \<noteq> 0 \<Longrightarrow> c0 \<in> set cs \<Longrightarrow>
     duplicateFree (map (\<lambda>c. if c = c0 then v else g c) cs) =
       (duplicateFree (map g cs) \<and> v \<notin> set (map g (filter (\<lambda>c. c \<noteq> c0) cs)))"
proof (induction cs)
  case Nil
  then show ?case by simp
next
  case (Cons c cs)
  show ?case
  proof (cases "c = c0")
    case True
    then have "c0 \<notin> set cs" using Cons.prems(1) by simp
    then have e: "map (\<lambda>c. if c = c0 then v else g c) cs = map g cs"
      "filter (\<lambda>c. c \<noteq> c0) cs = cs" by (auto simp: filter_id_conv)
    show ?thesis using True Cons.prems(2,3) by (auto simp: duplicateFree_def e)
  next
    case False
    then have "c0 \<in> set cs" "distinct cs" using Cons.prems by auto
    from Cons.IH[OF this(2) Cons.prems(2,3) this(1)]
    have ih: "duplicateFree (map (\<lambda>c. if c = c0 then v else g c) cs) =
       (duplicateFree (map g cs) \<and> v \<notin> set (map g (filter (\<lambda>c. c \<noteq> c0) cs)))" .
    have s1: "set (map (\<lambda>c. if c = c0 then v else g c) cs)
              = insert v (set (map g (filter (\<lambda>c. c \<noteq> c0) cs)))"
      using \<open>c0 \<in> set cs\<close> by auto
    have s2: "set (map g cs) = insert 0 (set (map g (filter (\<lambda>c. c \<noteq> c0) cs)))"
      using \<open>c0 \<in> set cs\<close> Cons.prems(2) by auto
    show ?thesis using False ih Cons.prems(3) s1 s2
      by (auto simp: duplicateFree_def)
  qed
qed


lemma rowCells_cellSet:
  "wf_board b \<Longrightarrow> row < 9 \<Longrightarrow> col < 9 \<Longrightarrow>
     rowCells (cellSet b row col v) row = map (\<lambda>c. if c = col then v else cellAt b row c) [0..<9]"
  by (simp add: rowCells_def cellAt_cellSet del: upt_rec_numeral)

lemma colCells_cellSet:
  "wf_board b \<Longrightarrow> row < 9 \<Longrightarrow> col < 9 \<Longrightarrow>
     colCells (cellSet b row col v) col = map (\<lambda>r. if r = row then v else cellAt b r col) [0..<9]"
  by (simp add: colCells_def cellAt_cellSet del: upt_rec_numeral)

lemma boxCells_cellSet:
  "wf_board b \<Longrightarrow> row < 9 \<Longrightarrow> col < 9 \<Longrightarrow>
     boxCells (cellSet b row col v) i j =
       map (\<lambda>rc. if rc = (row, col) then v else (\<lambda>(r, c). cellAt b r c) rc) (boxIndices i j)"
  by (auto simp: boxCells_def cellAt_cellSet split: if_splits)

lemma in_boxIndices: "(row, col) \<in> set (boxIndices (row div 3) (col div 3))"
  by (auto simp: boxIndices_def)

lemma distinct_boxIndices: "distinct (boxIndices i j)"
  by (simp add: boxIndices_def distinct_product)

text \<open>Claim C5 (as amended).  For a blank cell of a 9x9 grid and a non-zero value,
  \<open>wouldWork\<close> leaves the object exactly as it was, and it returns true if and only if,
  with the value placed, the row, the column and the box of the cell hold no duplicate
  non-zero value.  When these three units hold no duplicate before the call, that is the
  case if and only if the value does not occur among the other cells of the three units.\<close>

theorem wouldWork_placement:
  assumes "wf_board (board p)" "row < 9" "col < 9" "cellAt (board p) row col = 0" "v \<noteq> 0"
  shows "snd (fst (wouldWork vb v row col p)) = p
     \<and> fst (fst (wouldWork vb v row col p)) =
         (duplicateFree (rowCells (cellSet (board p) row col v) row)
          \<and> duplicateFree (colCells (cellSet (board p) row col v) col)
          \<and> duplicateFree (boxCells (cellSet (board p) row col v) (row div 3) (col div 3)))
     \<and> (duplicateFree (rowCells (board p) row) \<and> duplicateFree (colCells (board p) col)
          \<and> duplicateFree (boxCells (board p) (row div 3) (col div 3))
        \<longrightarrow> fst (fst (wouldWork vb v row col p)) = (\<not> createsDuplicate (board p) v row col))"
proof -
  obtain ok p1 m1 where w: "wouldWork vb v row col p = ((ok, p1), m1)"
    by (metis prod.exhaust)
  have "p1 = p\<lparr>board := cellSet (board p) row col 0\<rparr>" by (rule wouldWork_state[OF w])
  then have frame: "snd (fst (wouldWork vb v row col p)) = p"
    using w cellSet_same[OF assms(4)] by simp
  have r: "duplicateFree (rowCells (cellSet (board p) row col v) row) =
      (duplicateFree (rowCells (board p) row) \<and> v \<notin> set (rowPeers (board p) row col))"
  proof -
    have "duplicateFree (map (\<lambda>c. if c = col then v else cellAt (board p) row c) [0..<9]) =
       (duplicateFree (map (cellAt (board p) row) [0..<9])
        \<and> v \<notin> set (map (cellAt (board p) row) (filter (\<lambda>c. c \<noteq> col) [0..<9])))"
      using assms(3,4,5) by (intro duplicateFree_placed) simp_all
    then show ?thesis unfolding rowCells_cellSet[OF assms(1,2,3)]
      by (simp add: rowCells_def rowPeers_def del: upt_rec_numeral)
  qed
  have c: "duplicateFree (colCells (cellSet (board p) row col v) col) =
      (duplicateFree (colCells (board p) col) \<and> v \<notin> set (colPeers (board p) row col))"
  proof -
    have "duplicateFree (map (\<lambda>r. if r = row then v else cellAt (board p) r col) [0..<9]) =
       (duplicateFree (map (\<lambda>r. cellAt (board p) r col) [0..<9])
        \<and> v \<notin> set (map (\<lambda>r. cellAt (board p) r col) (filter (\<lambda>r. r \<noteq> row) [0..<9])))"
      using assms(2,4,5) by (intro duplicateFree_placed) simp_all
    then show ?thesis unfolding colCells_cellSet[OF assms(1,2,3)]
      by (simp add: colCells_def colPeers_def del: upt_rec_numeral)
  qed
  have x: "duplicateFree (boxCells (cellSet (board p) row col v) (row div 3) (col div 3)) =
      (duplicateFree (boxCells (board p) (row div 3) (col div 3))
       \<and> v \<notin> set (boxPeers (board p) row col))"
  proof -
    have "duplicateFree (map (\<lambda>rc. if rc = (row, col) then v else (\<lambda>(r, c). cellAt (board p) r c) rc)
                           (boxIndices (row div 3) (col div 3))) =
       (duplicateFree (map (\<lambda>(r, c). cellAt (board p) r c) (boxIndices (row div 3) (col div 3)))
        \<and> v \<notin> set (map (\<lambda>(r, c). cellAt (board p) r c)
                       (filter (\<lambda>rc. rc \<noteq> (row, col)) (boxIndices (row div 3) (col div 3)))))"
      using assms(4,5)
      by (intro duplicateFree_placed) (simp_all add: distinct_boxIndices in_boxIndices)
    then show ?thesis unfolding boxCells_cellSet[OF assms(1,2,3)]
      by (simp add: boxCells_def boxPeers_def)
  qed
  show ?thesis
    using frame r c x by (auto simp: wouldWork_fst Let_def createsDuplicate_def)
qed

theorem wouldWork_placement_witness:
  "wf_board (board (SudokuPuzzle puzzle3Blank)) \<and> cellAt (board (SudokuPuzzle puzzle3Blank)) 0 0 = 0
   \<and> duplicateFree (rowCells (board (SudokuPuzzle puzzle3Blank)) 0)
   \<and> duplicateFree (colCells (board (SudokuPuzzle puzzle3Blank)) 0)
   \<and> duplicateFree (boxCells (board (SudokuPuzzle puzzle3Blank)) (0 div 3) (0 div 3))
   \<and> snd (fst (wouldWork True 8 0 0 (SudokuPuzzle puzzle3Blank))) = SudokuPuzzle puzzle3Blank
   \<and> fst (fst (wouldWork True 8 0 0 (SudokuPuzzle puzzle3Blank)))
   \<and> \<not> createsDuplicate (board (SudokuPuzzle puzzle3Blank)) 8 0 0"
proof -
  have h1: "wf_board (board (SudokuPuzzle puzzle3Blank))" by code_simp
  have h2: "cellAt (board (SudokuPuzzle puzzle3Blank)) 0 0 = 0" by code_simp
  have h3: "duplicateFree (rowCells (board (SudokuPuzzle puzzle3Blank)) 0)" by code_simp
  have h4: "duplicateFree (colCells (board (SudokuPuzzle puzzle3Blank)) 0)" by code_simp
  have h5: "duplicateFree (boxCells (board (SudokuPuzzle puzzle3Blank)) (0 div 3) (0 div 3))"
    by code_simp
  have h6: "fst (fst (wouldWork True 8 0 0 (SudokuPuzzle puzzle3Blank)))" by code_simp
  show ?thesis
    using wouldWork_placement[where row=0 and col=0 and v=8 and vb=True, OF h1 _ _ h2] h1 h2 h3 h4 h5 h6 by simp
qed

text \<open>Claim C5 as stated fails on a grid that already holds a duplicate: in \<open>puzzle2\<close>
  of \<open>main\<close> with the cell (6, 0) blanked, the value 7 occurs nowhere else in row 6,
  column 0 or the box of the cell, and \<open>wouldWork\<close> still answers false, because row 6
  holds 3 twice.\<close>

theorem wouldWork_existing_duplicate_counterexample:
  "cellAt puzzle2Blank 6 0 = 0
   \<and> \<not> createsDuplicate puzzle2Blank 7 6 0
   \<and> \<not> fst (fst (wouldWork False 7 6 0 (SudokuPuzzle puzzle2Blank)))"
  by code_simp


section \<open>One propagation pass\<close>

lemma wouldWork_placeOk: "fst (fst (wouldWork vb v row col p)) = placeOk (board p) v row col"
  by (simp add: wouldWork_fst placeOk_def Let_def)

lemma placeOk_reset: "placeOk (cellSet b row col w) v row col = placeOk b v row col"
  by (simp add: placeOk_def cellSet_cellSet)

lemma trimSet_fst:
  "fst (fst (trimSet vb row col vs p)) = filter (\<lambda>v. placeOk (board p) v row col) vs"
proof (induction vs arbitrary: p)
  case Nil
  show ?case by simp
next
  case (Cons v vs)
  obtain ok q m where w: "wouldWork vb v row col p = ((ok, q), m)" by (metis prod.exhaust)
  have q: "q = p\<lparr>board := cellSet (board p) row col 0\<rparr>" by (rule wouldWork_state[OF w])
  have ok: "ok = placeOk (board p) v row col" using wouldWork_placeOk[of vb v row col p] w by simp
  have "fst (fst (trimSet vb row col vs q)) = filter (\<lambda>v. placeOk (board p) v row col) vs"
    by (simp add: Cons.IH q placeOk_reset)
  then show ?case using w ok by (auto split: prod.splits)
qed

text \<open>The body of the loop at a cell that is blank on the board.\<close>

lemma trimCell_blank:
  assumes tc: "trimCell vb row col p k = ((ret, p', k'), m)"
    and s: "map_of (possibilities p) (row, col) = Some s"
    and z: "cellAt (board p) row col = 0"
    and s': "s' = filter (\<lambda>v. placeOk (board p) v row col) s"
  shows "s' = [] \<Longrightarrow> ret \<and> k' = - 1
           \<and> p' = p\<lparr>possibilities := AList.update (row, col) [] (possibilities p)\<rparr>"
    and "\<And>v. s' = [v] \<Longrightarrow> \<not> ret \<and> k' = k
           \<and> p' = p\<lparr>board := cellSet (board p) row col v,
                     possibilities := AList.delete (row, col)
                        (AList.update (row, col) [v] (possibilities p))\<rparr>"
    and "2 \<le> length s' \<Longrightarrow> \<not> ret \<and> k' = k + 1
           \<and> p' = (if length s' < minPossibilities p
                   then p\<lparr>possibilities := AList.update (row, col) s' (possibilities p),
                          minPossibilities := length s', minRow := row, minCol := col\<rparr>
                   else p\<lparr>possibilities := AList.update (row, col) s' (possibilities p)\<rparr>)"
proof -
  obtain s2 p1 m1 where ts: "trimSet vb row col s p = ((s2, p1), m1)" by (metis prod.exhaust)
  have s2: "s2 = s'" using trimSet_fst[of vb row col s p] ts s' by simp
  have p1: "p1 = p" using trimSet_state[OF ts] cellSet_same[OF z] by (simp split: if_splits)
  show "s' = [] \<Longrightarrow> ret \<and> k' = - 1
           \<and> p' = p\<lparr>possibilities := AList.update (row, col) [] (possibilities p)\<rparr>"
    using tc s ts s2 p1 by (auto simp: trimCell_def Let_def)
  show "\<And>v. s' = [v] \<Longrightarrow> \<not> ret \<and> k' = k
           \<and> p' = p\<lparr>board := cellSet (board p) row col v,
                     possibilities := AList.delete (row, col)
                        (AList.update (row, col) [v] (possibilities p))\<rparr>"
    using tc s ts s2 p1 by (auto simp: trimCell_def Let_def)
  show "2 \<le> length s' \<Longrightarrow> \<not> ret \<and> k' = k + 1
           \<and> p' = (if length s' < minPossibilities p
                   then p\<lparr>possibilities := AList.update (row, col) s' (possibilities p),
                          minPossibilities := length s', minRow := row, minCol := col\<rparr>
                   else p\<lparr>possibilities := AList.update (row, col) s' (possibilities p)\<rparr>)"
  proof -
    assume a: "2 \<le> length s'"
    then have "s' \<noteq> []" "length s' \<noteq> Suc 0" by auto
    then show ?thesis using tc s ts s2 p1 by (auto simp: trimCell_def Let_def)
  qed
qed

lemma trimCell_null:
  "trimCell vb row col p k = ((ret, p', k'), m) \<Longrightarrow> map_of (possibilities p) (row, col) = None \<Longrightarrow>
     \<not> ret \<and> k' = k \<and> p' = p"
  by (auto simp: trimCell_def)

text \<open>A rule for the pass: a property of the cells seen so far, of whether the body has
  returned, of the object and of the counter, that holds before the first cell and that
  every execution of the body carries over, holds when the pass ends.\<close>

lemma trimLoop_rule_aux:
  assumes step: "\<And>seen row col rest q j ret q' j' mm.
            cs0 = seen @ (row, col) # rest \<Longrightarrow> I seen False q j \<Longrightarrow>
            trimCell vb row col q j = ((ret, q', j'), mm) \<Longrightarrow> I (seen @ [(row, col)]) ret q' j'"
  shows "cs0 = seen @ cs \<Longrightarrow> I seen False p k \<Longrightarrow> trimLoop vb cs p k = ((n, p'), m) \<Longrightarrow>
           (\<exists>seen'. I seen' True p' (- 1) \<and> n = - 1 \<and> (\<exists>rest. cs0 = seen' @ rest))
           \<or> I cs0 False p' n"
proof (induction cs arbitrary: seen p k m)
  case Nil
  then show ?case by simp
next
  case (Cons rc cs)
  obtain row col where rc: "rc = (row, col)" by (cases rc)
  obtain ret p1 k1 m1 where tc: "trimCell vb row col p k = ((ret, p1, k1), m1)"
    by (metis prod.exhaust)
  have i1: "I (seen @ [(row, col)]) ret p1 k1"
    using step[OF _ Cons.prems(2) tc] Cons.prems(1) rc by simp
  show ?case
  proof (cases ret)
    case True
    then have e: "n = - 1" "p' = p1" using Cons.prems(3) by (auto simp: rc trimLoop_Cons[OF tc])
    have "k1 = - 1" using tc True by (auto simp: trimCell_def Let_def split: option.splits prod.splits if_splits)
    then show ?thesis using i1 True e Cons.prems(1) rc by (intro disjI1 exI[of _ "seen @ [(row, col)]"]) auto
  next
    case False
    obtain m3 where tl: "trimLoop vb cs p1 k1 = ((n, p'), m3)"
      using Cons.prems(3) False by (auto simp: rc trimLoop_Cons[OF tc] split: prod.splits)
    have c: "cs0 = (seen @ [(row, col)]) @ cs" using Cons.prems(1) rc by simp
    show ?thesis using Cons.IH[OF c _ tl] i1 False by simp
  qed
qed

lemma trimLoop_rule:
  assumes "trimLoop vb cs p k = ((n, p'), m)" "I [] False p k"
    and "\<And>seen row col rest q j ret q' j' mm.
            cs = seen @ (row, col) # rest \<Longrightarrow> I seen False q j \<Longrightarrow>
            trimCell vb row col q j = ((ret, q', j'), mm) \<Longrightarrow> I (seen @ [(row, col)]) ret q' j'"
  shows "(\<exists>seen'. I seen' True p' (- 1) \<and> n = - 1 \<and> (\<exists>rest. cs = seen' @ rest))
           \<or> I cs False p' n"
  using trimLoop_rule_aux[where I=I and cs0=cs and cs=cs and seen="[]", OF assms(3) _ assms(2) assms(1)]
  by simp


lemma in_allCells [simp]: "(row, col) \<in> set allCells \<longleftrightarrow> row < 9 \<and> col < 9"
  by (auto simp: allCells_def)

lemma ball_allCells:
  "(\<forall>x\<in>set allCells. case x of (row, col) \<Rightarrow> Q row col) = (\<forall>row col. row < 9 \<longrightarrow> col < 9 \<longrightarrow> Q row col)"
  by (auto simp: allCells_def)

lemma tableOk_iff:
  "tableOk p \<longleftrightarrow> wf_board (board p) \<and> (\<forall>row col. row < 9 \<longrightarrow> col < 9 \<longrightarrow> cellOk p row col)"
  by (simp add: tableOk_def list_all_iff ball_allCells)

lemma cluesKept_iff:
  "cluesKept b b' \<longleftrightarrow>
     (\<forall>row col. row < 9 \<longrightarrow> col < 9 \<longrightarrow> cellAt b row col \<noteq> 0 \<longrightarrow> cellAt b' row col = cellAt b row col)"
  by (auto simp: cluesKept_def list_all_iff ball_allCells)

lemma cluesKept_refl: "cluesKept b b"
  by (simp add: cluesKept_iff)

lemma cluesKept_trans: "cluesKept a b \<Longrightarrow> cluesKept b c \<Longrightarrow> cluesKept a c"
  by (simp add: cluesKept_iff)

lemma trimCell_tableOk:
  assumes tc: "trimCell vb row col p k = ((ret, p', k'), m)"
    and t: "tableOk p" and r: "row < 9" "col < 9"
  shows "tableOk p' \<and> cluesKept (board p) (board p')"
proof (cases "map_of (possibilities p) (row, col)")
  case None
  then show ?thesis using trimCell_null[OF tc None] t by (simp add: cluesKept_refl)
next
  case (Some s)
  have wf: "wf_board (board p)" using t by (simp add: tableOk_iff)
  have ok: "\<And>r c. r < 9 \<Longrightarrow> c < 9 \<Longrightarrow> cellOk p r c" using t by (simp add: tableOk_iff)
  have z: "cellAt (board p) row col = 0" "0 \<notin> set s" "length s \<le> 9" "sorted s" "distinct s"
    using ok[OF r] Some by (simp_all add: cellOk_def)
  define s' where "s' = filter (\<lambda>v. placeOk (board p) v row col) s"
  have ps: "0 \<notin> set s'" "length s' \<le> 9" "sorted s'" "distinct s'"
    using z le_trans[OF length_filter_le z(3)] by (simp_all add: s'_def sorted_wrt_filter)
  note b = trimCell_blank[OF tc Some z(1) s'_def]
  have "wf_board (board p') \<and>
        (\<forall>r c. r < 9 \<longrightarrow> c < 9 \<longrightarrow> cellOk p' r c
            \<and> (cellAt (board p) r c \<noteq> 0 \<longrightarrow> cellAt (board p') r c = cellAt (board p) r c))"
  proof (rule conjI)
    consider "s' = []" | v where "s' = [v]" | "2 \<le> length s'"
      using list_shape[of s'] by blast
    then show "wf_board (board p')"
    proof cases
      case 1
      show ?thesis using b(1)[OF 1] wf by simp
    next
      case 2
      show ?thesis using b(2)[OF 2] wf by (simp add: wf_board_cellSet)
    next
      case 3
      have "board p' = board p" using b(3)[OF 3] by (auto split: if_splits)
      then show ?thesis using wf by simp
    qed
  next
    show "\<forall>r c. r < 9 \<longrightarrow> c < 9 \<longrightarrow> cellOk p' r c
            \<and> (cellAt (board p) r c \<noteq> 0 \<longrightarrow> cellAt (board p') r c = cellAt (board p) r c)"
    proof (rule allI, rule allI, rule impI, rule impI)
    fix r c :: nat assume rc: "r < 9" "c < 9"
    consider "s' = []" | v where "s' = [v]" | "2 \<le> length s'"
      using list_shape[of s'] by blast
    then show "cellOk p' r c
        \<and> (cellAt (board p) r c \<noteq> 0 \<longrightarrow> cellAt (board p') r c = cellAt (board p) r c)"
    proof cases
      case 1
      have p': "p' = p\<lparr>possibilities := AList.update (row, col) [] (possibilities p)\<rparr>"
        using b(1)[OF 1] by simp
      show ?thesis using ok[OF rc] z(1)
        by (cases "r = row \<and> c = col") (auto simp: p' cellOk_def update_conv' split: option.splits)
    next
      case 2
      have v0: "v \<noteq> 0" using ps(1) 2 by auto
      have p': "p' = p\<lparr>board := cellSet (board p) row col v,
                     possibilities := AList.delete (row, col)
                        (AList.update (row, col) [v] (possibilities p))\<rparr>"
        using b(2)[OF 2] by simp
      show ?thesis using ok[OF rc] z(1) v0
        by (cases "r = row \<and> c = col")
           (auto simp: p' cellOk_def update_conv' delete_conv' cellAt_cellSet[OF wf r]
              split: option.splits)
    next
      case 3
      have p': "possibilities p' = AList.update (row, col) s' (possibilities p)" "board p' = board p"
        using b(3)[OF 3] by (auto split: if_splits)
      show ?thesis using ok[OF rc] z(1) ps
        by (cases "r = row \<and> c = col") (auto simp: p' cellOk_def update_conv' split: option.splits)
    qed
    qed
  qed
  then show ?thesis by (simp add: tableOk_iff cluesKept_iff)
qed

lemma cellOk_min [simp]:
  "cellOk (p\<lparr>minPossibilities := a, minRow := b, minCol := c\<rparr>) row col = cellOk p row col"
  by (simp add: cellOk_def cong: option.case_cong)

lemma trimLoop_tableOk:
  assumes "trimLoop vb cs p k = ((n, p'), m)" "tableOk p" "set cs \<subseteq> set allCells"
  shows "tableOk p' \<and> cluesKept (board p) (board p')"
proof -
  have "(\<exists>seen'. (tableOk p' \<and> cluesKept (board p) (board p')) \<and> n = - 1
            \<and> (\<exists>rest. cs = seen' @ rest))
        \<or> (tableOk p' \<and> cluesKept (board p) (board p'))"
  proof (rule trimLoop_rule[where I="\<lambda>seen ret q j. tableOk q \<and> cluesKept (board p) (board q)",
        OF assms(1)])
    show "tableOk p \<and> cluesKept (board p) (board p)" using assms(2) by (simp add: cluesKept_refl)
  next
    fix seen row col rest q j ret q' j' mm
    assume a: "cs = seen @ (row, col) # rest" "tableOk q \<and> cluesKept (board p) (board q)"
      "trimCell vb row col q j = ((ret, q', j'), mm)"
    have "(row, col) \<in> set allCells" using a(1) assms(3) by auto
    then have r: "row < 9" "col < 9" by simp_all
    from trimCell_tableOk[OF a(3) _ r] a(2)
    show "tableOk q' \<and> cluesKept (board p) (board q')"
      using cluesKept_trans by blast
  qed
  then show ?thesis by blast
qed

lemma trimPossibilities_tableOk:
  assumes "trimPossibilities vb p = ((n, p'), m)" "tableOk p"
  shows "tableOk p'" "cluesKept (board p) (board p')"
proof -
  define p0 where "p0 = p\<lparr>minPossibilities := 10, minRow := 10, minCol := 10\<rparr>"
  obtain m0 where tl: "trimLoop vb allCells p0 0 = ((n, p'), m0)"
    using assms(1) by (auto simp: trimPossibilities_def p0_def Let_def split: prod.splits)
  have t0: "tableOk p0" using assms(2) by (simp add: tableOk_def p0_def)
  from trimLoop_tableOk[OF tl t0] show "tableOk p'" "cluesKept (board p) (board p')"
    by (simp_all add: p0_def)
qed

declare solveLoop.simps [simp del]

lemma solveLoop_tableOk:
  "solveLoop vb prev p = ((out, p'), m) \<Longrightarrow> tableOk p \<Longrightarrow>
     tableOk p' \<and> cluesKept (board p) (board p')"
proof (induction vb prev p arbitrary: out p' m rule: solveLoop.induct)
  case (1 vb prevNumBlank p)
  obtain n p1 m1 where tp: "trimPossibilities vb p = ((n, p1), m1)" by (metis prod.exhaust)
  note t1 = trimPossibilities_tableOk[OF tp "1.prems"(2)]
  show ?case
  proof (cases "n = - 1 \<or> n = 0 \<or> n = prevNumBlank")
    case True
    then have "p' = p1" using "1.prems"(1) tp
      by (auto simp: solveLoop.simps[of vb prevNumBlank p] split: if_splits)
    then show ?thesis using t1 by simp
  next
    case False
    obtain m3 where sl: "solveLoop vb n p1 = ((out, p'), m3)"
      using "1.prems"(1) tp False
      by (auto simp: solveLoop.simps[of vb prevNumBlank p] split: prod.splits)
    from "1.IH"[OF tp[symmetric] refl _ _ _ sl t1(1)] False
    have "tableOk p' \<and> cluesKept (board p1) (board p')" by simp
    then show ?thesis using t1(2) cluesKept_trans by blast
  qed
qed


section \<open>Frame properties of \<open>solve\<close>\<close>

lemma setAll_fold:
  "board (fold (\<lambda>(row, col) q.
             if cellAt (board q) row col = 0
             then q\<lparr>possibilities :=
                     AList.update (row, col) [1, 2, 3, 4, 5, 6, 7, 8, 9] (possibilities q)\<rparr>
             else q\<lparr>possibilities := AList.delete (row, col) (possibilities q)\<rparr>) cs p) = board p
   \<and> map_of (possibilities (fold (\<lambda>(row, col) q.
             if cellAt (board q) row col = 0
             then q\<lparr>possibilities :=
                     AList.update (row, col) [1, 2, 3, 4, 5, 6, 7, 8, 9] (possibilities q)\<rparr>
             else q\<lparr>possibilities := AList.delete (row, col) (possibilities q)\<rparr>) cs p)) (r, c)
     = (if (r, c) \<in> set cs
        then (if cellAt (board p) r c = 0 then Some [1, 2, 3, 4, 5, 6, 7, 8, 9] else None)
        else map_of (possibilities p) (r, c))"
proof (induction cs arbitrary: p)
  case Nil
  show ?case by simp
next
  case (Cons x cs)
  obtain row col where x: "x = (row, col)" by (cases x)
  show ?case
    by (cases "cellAt (board p) row col = 0")
       (auto simp: x Cons.IH update_conv' delete_conv')
qed

lemma setAllPossibilities_board [simp]: "board (setAllPossibilities p) = board p"
  using setAll_fold[of allCells p] by (simp add: setAllPossibilities_def)

lemma setAllPossibilities_table:
  "row < 9 \<Longrightarrow> col < 9 \<Longrightarrow>
     map_of (possibilities (setAllPossibilities p)) (row, col)
       = (if cellAt (board p) row col = 0 then Some [1, 2, 3, 4, 5, 6, 7, 8, 9] else None)"
  using setAll_fold[of allCells p row col] by (simp add: setAllPossibilities_def)

lemma tableOk_setAllPossibilities: "wf_board (board p) \<Longrightarrow> tableOk (setAllPossibilities p)"
  by (simp add: tableOk_iff cellOk_def setAllPossibilities_table)

lemma copyBlanks_fold:
  "wf_board (board p) \<Longrightarrow> set cs \<subseteq> set allCells \<Longrightarrow> distinct cs \<Longrightarrow> r < 9 \<Longrightarrow> c < 9 \<Longrightarrow>
   wf_board (board (fold (\<lambda>(row, col) q.
             if cellAt (board q) row col = 0
             then q\<lparr>board := cellSet (board q) row col (getValue subPuzzle row col)\<rparr>
             else q) cs p))
   \<and> cellAt (board (fold (\<lambda>(row, col) q.
             if cellAt (board q) row col = 0
             then q\<lparr>board := cellSet (board q) row col (getValue subPuzzle row col)\<rparr>
             else q) cs p)) r c
       = (if (r, c) \<in> set cs \<and> cellAt (board p) r c = 0
          then cellAt (board subPuzzle) r c else cellAt (board p) r c)"
proof (induction cs arbitrary: p)
  case Nil
  then show ?case by simp
next
  case (Cons x cs)
  obtain row col where x: "x = (row, col)" by (cases x)
  have rc: "row < 9" "col < 9" using Cons.prems(2) x by auto
  have d: "(row, col) \<notin> set cs" "distinct cs" "set cs \<subseteq> set allCells"
    using Cons.prems(2,3) x by auto
  show ?case
  proof (cases "cellAt (board p) row col = 0")
    case True
    define q where "q = p\<lparr>board := cellSet (board p) row col (getValue subPuzzle row col)\<rparr>"
    have wq: "wf_board (board q)" using Cons.prems(1) by (simp add: q_def wf_board_cellSet)
    have cq: "cellAt (board q) r c
        = (if r = row \<and> c = col then cellAt (board subPuzzle) row col else cellAt (board p) r c)"
      by (simp add: q_def cellAt_cellSet[OF Cons.prems(1) rc] getValue_def)
    have f: "fold (\<lambda>(row, col) q.
             if cellAt (board q) row col = 0
             then q\<lparr>board := cellSet (board q) row col (getValue subPuzzle row col)\<rparr>
             else q) (x # cs) p
           = fold (\<lambda>(row, col) q.
             if cellAt (board q) row col = 0
             then q\<lparr>board := cellSet (board q) row col (getValue subPuzzle row col)\<rparr>
             else q) cs q"
      using True by (simp add: x q_def)
    show ?thesis
      unfolding f using Cons.IH[OF wq d(3) d(2) Cons.prems(4,5)] True d(1) cq
      by (cases "r = row \<and> c = col") (auto simp: x)
  next
    case False
    show ?thesis
      using Cons.IH[OF Cons.prems(1) d(3) d(2) Cons.prems(4,5)] False d(1)
      by (auto simp: x)
  qed
qed

lemma copyBlanks_cell:
  "wf_board (board p) \<Longrightarrow> row < 9 \<Longrightarrow> col < 9 \<Longrightarrow>
     cellAt (board (copyBlanks p subPuzzle)) row col
       = (if cellAt (board p) row col = 0 then cellAt (board subPuzzle) row col
          else cellAt (board p) row col)"
  using copyBlanks_fold[of p allCells row col subPuzzle]
  by (simp add: copyBlanks_def distinct_allCells)

lemma copyBlanks_wf: "wf_board (board p) \<Longrightarrow> wf_board (board (copyBlanks p subPuzzle))"
  using copyBlanks_fold[of p allCells 0 0 subPuzzle]
  by (simp add: copyBlanks_def distinct_allCells)

lemma copyBlanks_cluesKept:
  "wf_board (board p) \<Longrightarrow> cluesKept (board p) (board (copyBlanks p subPuzzle))"
  by (simp add: cluesKept_iff copyBlanks_cell)

lemma tryCandidates_failed:
  "tryCandidates subSolve vb p vs = Some ((False, p'), m) \<Longrightarrow> p' = p"
  by (induction vs arbitrary: m) (auto split: option.splits prod.splits if_splits)

lemma tryCandidates_solved:
  "tryCandidates subSolve vb p vs = Some ((True, p'), m) \<Longrightarrow>
     \<exists>subPuzzle. p' = copyBlanks p subPuzzle"
  by (induction vs arbitrary: m) (auto split: option.splits prod.splits if_splits)

lemma solve_fuel_Suc:
  "solveLoop vb 50 (setAllPossibilities p) = ((out, p1), m1) \<Longrightarrow>
   solve_fuel (Suc depth) vb p =
     (case out of
        Unsolvable \<Rightarrow> Some ((False, p1), m1)
      | Solved \<Rightarrow> Some ((True, p1), m1)
      | Stalled \<Rightarrow>
          if minRow p1 < 9 \<and> minCol p1 < 9 then
            (case map_of (possibilities p1) (minRow p1, minCol p1) of
               None \<Rightarrow> None
             | Some s \<Rightarrow>
                 (case tryCandidates (solve_fuel depth False) vb p1 s of
                    None \<Rightarrow> None
                  | Some (r, m') \<Rightarrow>
                      Some (r, m1 @ (if vb then [MinPossibilitiesIs (minPossibilities p1)
                                                  (minRow p1) (minCol p1)] else []) @ m')))
          else None)"
  by (cases out) simp_all

declare solve_fuel.simps(2) [simp del]

lemma solve_fuel_frame:
  assumes "solve_fuel depth vb p = Some ((ok, p'), m)" "wf_board (board p)"
  shows "wf_board (board p') \<and> cluesKept (board p) (board p')
         \<and> (\<not> ok \<longrightarrow> p' = snd (fst (solveLoop vb 50 (setAllPossibilities p))))"
proof (cases depth)
  case 0
  then show ?thesis using assms(1) by simp
next
  case (Suc d)
  obtain out p1 m1 where sl: "solveLoop vb 50 (setAllPossibilities p) = ((out, p1), m1)"
    by (metis prod.exhaust)
  have t: "tableOk p1" "cluesKept (board p) (board p1)"
    using solveLoop_tableOk[OF sl tableOk_setAllPossibilities[OF assms(2)]] by simp_all
  have w1: "wf_board (board p1)" using t(1) by (simp add: tableOk_iff)
  show ?thesis
  proof (cases out)
    case Unsolvable
    then show ?thesis using assms(1) t w1 sl by (simp add: Suc solve_fuel_Suc[OF sl])
  next
    case Solved
    then show ?thesis using assms(1) t w1 sl by (simp add: Suc solve_fuel_Suc[OF sl])
  next
    case Stalled
    then obtain s m2 where tr: "tryCandidates (solve_fuel d False) vb p1 s = Some ((ok, p'), m2)"
      using assms(1)
      by (auto simp: Suc solve_fuel_Suc[OF sl] split: if_splits option.splits prod.splits)
    show ?thesis
    proof (cases ok)
      case True
      then have "tryCandidates (solve_fuel d False) vb p1 s = Some ((True, p'), m2)"
        using tr by simp
      then obtain sub where "p' = copyBlanks p1 sub" using tryCandidates_solved by blast
      then show ?thesis using True w1 t(2) copyBlanks_wf[OF w1] copyBlanks_cluesKept[OF w1]
          cluesKept_trans by blast
    next
      case False
      then have "tryCandidates (solve_fuel d False) vb p1 s = Some ((False, p'), m2)"
        using tr by simp
      then have "p' = p1" by (rule tryCandidates_failed)
      then show ?thesis using w1 t(2) sl by simp
    qed
  qed
qed

text \<open>Claim C10.  \<open>solve\<close> never overwrites a given clue: whatever it returns, every cell
  of the 9x9 grid that was non-zero when it was called holds the same value afterwards.
  (Candidate sets exist only for blank cells, a promotion writes only to a cell that has
  a candidate set, and the copy from a solved sub-puzzle writes only to cells that are
  zero.)\<close>

theorem solve_keeps_clues:
  assumes "solve_fuel depth vb p = Some ((ok, p'), m)" "wf_board (board p)"
    "row < 9" "col < 9" "cellAt (board p) row col \<noteq> 0"
  shows "cellAt (board p') row col = cellAt (board p) row col"
  using solve_fuel_frame[OF assms(1,2)] assms(3,4,5) by (simp add: cluesKept_iff)

theorem solve_keeps_clues_witness:
  "wf_board (board (SudokuPuzzle contradictionGrid))
   \<and> cellAt (board (SudokuPuzzle contradictionGrid)) 2 1 \<noteq> 0
   \<and> (case solve False (SudokuPuzzle contradictionGrid) of
        None \<Rightarrow> False
      | Some ((ok, p'), m) \<Rightarrow> \<not> ok \<and> cellAt (board p') 2 1 = 2 \<and> cellAt (board p') 0 0 = 8)"
proof -
  have h1: "wf_board (board (SudokuPuzzle contradictionGrid))" by code_simp
  have h2: "cellAt (board (SudokuPuzzle contradictionGrid)) 2 1 \<noteq> 0" by code_simp
  have h3: "cellAt (board (SudokuPuzzle contradictionGrid)) 2 1 = 2" by code_simp
  have h4: "(case solve False (SudokuPuzzle contradictionGrid) of
        None \<Rightarrow> False
      | Some ((ok, p'), m) \<Rightarrow> \<not> ok \<and> cellAt (board p') 0 0 = 8)" by code_simp
  then obtain ok p' m where
    e: "solve_fuel 82 False (SudokuPuzzle contradictionGrid) = Some ((ok, p'), m)"
    by (auto simp: solve_def split: option.splits)
  from solve_keeps_clues[OF e h1 _ _ h2] h3
  have "cellAt (board p') 2 1 = 2" by simp
  then show ?thesis using h1 h2 h4 e by (simp add: solve_def)
qed


text \<open>Claim C7 (as amended).  The branch search works on clones: when \<open>solve\<close> returns
  false, the caller's grid is exactly the grid that the caller's own propagation passes
  left, and every cell that was filled before the call holds its old value.\<close>

theorem solve_failure_keeps_propagated_grid:
  assumes "solve_fuel depth vb p = Some ((False, p'), m)" "wf_board (board p)"
  shows "board p' = board (snd (fst (solveLoop vb 50 (setAllPossibilities p))))
         \<and> cluesKept (board p) (board p')"
  using solve_fuel_frame[OF assms] by auto

theorem solve_failure_keeps_propagated_grid_witness:
  "wf_board (board (SudokuPuzzle contradictionGrid))
   \<and> (case solve False (SudokuPuzzle contradictionGrid) of
        None \<Rightarrow> False
      | Some ((ok, p'), m) \<Rightarrow>
          \<not> ok
          \<and> board p' = board (snd (fst (solveLoop False 50
                                  (setAllPossibilities (SudokuPuzzle contradictionGrid)))))
          \<and> cluesKept (board (SudokuPuzzle contradictionGrid)) (board p'))"
proof -
  have h1: "wf_board (board (SudokuPuzzle contradictionGrid))" by code_simp
  have h4: "(case solve False (SudokuPuzzle contradictionGrid) of
        None \<Rightarrow> False | Some ((ok, p'), m) \<Rightarrow> \<not> ok)" by code_simp
  then obtain p' m where
    e: "solve_fuel 82 False (SudokuPuzzle contradictionGrid) = Some ((False, p'), m)"
    by (auto simp: solve_def split: option.splits)
  from solve_failure_keeps_propagated_grid[OF e h1]
  show ?thesis using h1 e by (auto simp: solve_def)
qed

text \<open>Claim C7 as stated fails: on \<open>contradictionGrid\<close>, whose units hold no duplicate,
  \<open>solve\<close> returns false after the first pass has written 8 into the blank cell (0, 0).\<close>

theorem solve_failure_changes_grid_counterexample:
  "wf_board contradictionGrid \<and> fst (isSolutionValid False contradictionGrid)
   \<and> cellAt contradictionGrid 0 0 = 0
   \<and> (case solve False (SudokuPuzzle contradictionGrid) of
        None \<Rightarrow> False
      | Some ((ok, p'), m) \<Rightarrow> \<not> ok \<and> cellAt (board p') 0 0 = 8)"
  by code_simp

section \<open>The verbose flag\<close>


lemma isRowOrColOk_verbose:
  "fst (isRowOrColOk vb b i which) = fst (isRowOrColOk False b i which)"
  by (cases which) (simp_all add: isRowOrColOk_ROW isRowOrColOk_COL)

lemma wouldWork_verbose: "fst (wouldWork vb v row col p) = fst (wouldWork False v row col p)"
proof -
  obtain ok q m where a: "wouldWork vb v row col p = ((ok, q), m)" by (metis prod.exhaust)
  obtain ok' q' m' where b: "wouldWork False v row col p = ((ok', q'), m')" by (metis prod.exhaust)
  have "ok = ok'" using wouldWork_placeOk[of vb v row col p] wouldWork_placeOk[of False v row col p] a b
    by simp
  moreover have "q = q'" using wouldWork_state[OF a] wouldWork_state[OF b] by simp
  ultimately show ?thesis using a b by simp
qed









section \<open>Reading a grid from text\<close>


















text \<open>A line of ten tokens: the tenth value lands in the first cell of the next row, and
  the constructor reports nothing.\<close>

lemma tenth_token_is_stored_in_next_row:
  "SudokuPuzzleFromFile staleMemory (Some [''1,2,3,4,5,6,7,8,9,7''])
     = (Object (SudokuPuzzle ([1, 2, 3, 4, 5, 6, 7, 8, 9]
                              # (7 # replicate 8 (- 1)) # replicate 7 (replicate 9 (- 1)))),
        [],
        [PrintBoard ([1, 2, 3, 4, 5, 6, 7, 8, 9]
                     # (7 # replicate 8 (- 1)) # replicate 7 (replicate 9 (- 1)))])"
  by code_simp





section \<open>The branch on the recorded cell\<close>

lemma sorted_allCells: "sorted_wrt rowMajorLess allCells"
  by code_simp

lemma trimCell_minTracked:
  assumes tc: "trimCell vb row col q j = ((ret, q', j'), m)"
    and t: "tableOk q" and r: "row < 9" "col < 9"
    and mt: "minTracked S q" and new: "(row, col) \<notin> S"
    and lt: "\<forall>y\<in>S. rowMajorLess y (row, col)"
    and nret: "\<not> ret"
  shows "minTracked (insert (row, col) S) q'"
proof (cases "map_of (possibilities q) (row, col)")
  case None
  then have "q' = q" using trimCell_null[OF tc None] by simp
  then show ?thesis using mt None by (auto simp: minTracked_def)
next
  case (Some s)
  have ok: "cellOk q row col" using t r by (simp add: tableOk_iff)
  have z: "cellAt (board q) row col = 0" "length s \<le> 9"
    using ok Some by (simp_all add: cellOk_def)
  define s' where "s' = filter (\<lambda>v. placeOk (board q) v row col) s"
  have l9: "length s' \<le> 9" using le_trans[OF length_filter_le z(2)] by (simp add: s'_def)
  note b = trimCell_blank[OF tc Some z(1) s'_def]
  consider "s' = []" | v where "s' = [v]" | "2 \<le> length s'"
    using list_shape[of s'] by blast
  then show ?thesis
  proof cases
    case 1
    then show ?thesis using b(1) nret by simp
  next
    case 2
    have q': "map_of (possibilities q') = (map_of (possibilities q))((row, col) := None)"
      "minPossibilities q' = minPossibilities q" "minRow q' = minRow q" "minCol q' = minCol q"
      using b(2)[OF 2] by (simp_all add: update_conv' delete_conv')
    show ?thesis using mt new
      unfolding minTracked_def q' by (auto split: if_splits)
  next
    case 3
    show ?thesis
    proof (cases "length s' < minPossibilities q")
      case True
      have q': "map_of (possibilities q') = (map_of (possibilities q))((row, col) \<mapsto> s')"
        "minPossibilities q' = length s'" "minRow q' = row" "minCol q' = col"
        using b(3)[OF 3] True by (simp_all add: update_conv')
      show ?thesis using mt new 3 True l9
        unfolding minTracked_def q' by (auto split: if_splits)
    next
      case False
      have q': "map_of (possibilities q') = (map_of (possibilities q))((row, col) \<mapsto> s')"
        "minPossibilities q' = minPossibilities q" "minRow q' = minRow q" "minCol q' = minCol q"
        using b(3)[OF 3] False by (simp_all add: update_conv')
      have ne10: "minPossibilities q \<noteq> 10" using False l9 by simp
      then have "(minRow q, minCol q) \<in> S" using mt by (simp add: minTracked_def)
      then have lm: "rowMajorLess (minRow q, minCol q) (row, col)" using lt by blast
      show ?thesis using mt new 3 False lm
        unfolding minTracked_def q' by (auto split: if_splits)
    qed
  qed
qed

lemma trimLoop_minTracked:
  assumes tl: "trimLoop vb cs p k = ((n, p'), m)" and t: "tableOk p"
    and cs: "set cs \<subseteq> set allCells" "distinct cs" "sorted_wrt rowMajorLess cs"
    and m0: "minTracked {} p" and n: "n \<noteq> - 1"
  shows "minTracked (set cs) p'"
proof -
  have "(\<exists>seen'. (tableOk p' \<and> (\<not> True \<longrightarrow> minTracked (set seen') p')) \<and> n = - 1
            \<and> (\<exists>rest. cs = seen' @ rest))
        \<or> (tableOk p' \<and> (\<not> False \<longrightarrow> minTracked (set cs) p'))"
  proof (rule trimLoop_rule[where
        I="\<lambda>seen ret q j. tableOk q \<and> (\<not> ret \<longrightarrow> minTracked (set seen) q)", OF tl])
    show "tableOk p \<and> (\<not> False \<longrightarrow> minTracked (set []) p)" using t m0 by simp
  next
    fix seen row col rest q j ret q' j' mm
    assume a: "cs = seen @ (row, col) # rest"
      "tableOk q \<and> (\<not> False \<longrightarrow> minTracked (set seen) q)"
      "trimCell vb row col q j = ((ret, q', j'), mm)"
    have "(row, col) \<in> set allCells" using a(1) cs(1) by auto
    then have r: "row < 9" "col < 9" by simp_all
    have new: "(row, col) \<notin> set seen" using a(1) cs(2) by auto
    have lt: "\<forall>y\<in>set seen. rowMajorLess y (row, col)"
      using a(1) cs(3) by (auto simp: sorted_wrt_append)
    have t': "tableOk q'" using trimCell_tableOk[OF a(3) _ r] a(2) by simp
    have "\<not> ret \<longrightarrow> minTracked (set (seen @ [(row, col)])) q'"
      using trimCell_minTracked[OF a(3) _ r _ new lt] a(2) by simp
    then show "tableOk q' \<and> (\<not> ret \<longrightarrow> minTracked (set (seen @ [(row, col)])) q')"
      using t' by simp
  qed
  then show ?thesis using n by auto
qed

lemma trimPossibilities_minTracked:
  assumes tp: "trimPossibilities vb p = ((n, p'), m)" and t: "tableOk p" and n: "n \<noteq> - 1" "n \<noteq> 0"
  shows "minTracked (set allCells) p'" "minPossibilities p' \<noteq> 10"
proof -
  define p0 where "p0 = p\<lparr>minPossibilities := 10, minRow := 10, minCol := 10\<rparr>"
  obtain m0 where tl: "trimLoop vb allCells p0 0 = ((n, p'), m0)"
    using tp by (auto simp: trimPossibilities_def p0_def Let_def split: prod.splits)
  have t0: "tableOk p0" using t by (simp add: tableOk_def p0_def)
  have m0: "minTracked {} p0" by (simp add: minTracked_def p0_def)
  show mt: "minTracked (set allCells) p'"
    by (rule trimLoop_minTracked[OF tl t0 _ distinct_allCells sorted_allCells m0 n(1)]) simp
  have t': "tableOk p'" using trimPossibilities_tableOk[OF tp t] by simp
  have "numCandidateSets p' \<noteq> 0" using trimPossibilities_count(1)[OF tp n(1)] n(2) by simp
  then obtain x where x: "x \<in> set allCells" "map_of (possibilities p') x \<noteq> None"
    by (auto simp: numCandidateSets_def filter_empty_conv)
  then obtain s where s: "map_of (possibilities p') x = Some s" by auto
  obtain row col where rc: "x = (row, col)" by (cases x)
  have "cellOk p' row col" using t' x(1) rc by (simp add: tableOk_iff)
  then have "length s \<le> 9" using s rc by (simp add: cellOk_def)
  moreover have "minPossibilities p' \<le> length s" using mt x(1) s by (auto simp: minTracked_def)
  ultimately show "minPossibilities p' \<noteq> 10" by simp
qed

lemma solveLoop_Stalled:
  "solveLoop vb prev p = ((Stalled, p1), m) \<Longrightarrow> tableOk p \<Longrightarrow>
     \<exists>q n m'. tableOk q \<and> trimPossibilities vb q = ((n, p1), m') \<and> n \<noteq> - 1 \<and> n \<noteq> 0"
proof (induction vb prev p arbitrary: m rule: solveLoop.induct)
  case (1 vb prevNumBlank p)
  obtain n q1 m1 where tp: "trimPossibilities vb p = ((n, q1), m1)" by (metis prod.exhaust)
  show ?case
  proof (cases "n = - 1 \<or> n = 0")
    case True
    then show ?thesis using "1.prems"(1) tp
      by (auto simp: solveLoop.simps[of vb prevNumBlank p])
  next
    case False
    show ?thesis
    proof (cases "n = prevNumBlank")
      case True
      then have "q1 = p1" using "1.prems"(1) tp False
        by (auto simp: solveLoop.simps[of vb prevNumBlank p])
      then show ?thesis using tp False "1.prems"(2) by blast
    next
      case ne: False
      obtain m3 where sl: "solveLoop vb n q1 = ((Stalled, p1), m3)"
        using "1.prems"(1) tp False ne
        by (auto simp: solveLoop.simps[of vb prevNumBlank p] split: prod.splits)
      have t1: "tableOk q1" using trimPossibilities_tableOk[OF tp "1.prems"(2)] by simp
      from "1.IH"[OF tp[symmetric] refl _ _ _ sl t1] False ne show ?thesis by simp
    qed
  qed
qed


lemma length_allCells: "length allCells = 81"
  by (simp add: allCells_def)

lemma numBlankCells_le: "numBlankCells b \<le> 81"
  using length_filter_le[of "\<lambda>x. cellAt b (fst x) (snd x) = 0" allCells]
  by (simp add: numBlankCells_def length_allCells)

lemma length_filter_less_mono:
  assumes "\<And>x. x \<in> set xs \<Longrightarrow> P x \<Longrightarrow> Q x" "y \<in> set xs" "Q y" "\<not> P y"
  shows "length (filter P xs) < length (filter Q xs)"
proof -
  have "filter P xs = filter P (filter Q xs)"
    using assms(1) by (induction xs) auto
  moreover have "length (filter P (filter Q xs)) < length (filter Q xs)"
    by (rule length_filter_less[of y]) (use assms in auto)
  ultimately show ?thesis by simp
qed

lemma numBlankCells_cellSet:
  assumes "wf_board b" "row < 9" "col < 9" "cellAt b row col = 0" "v \<noteq> 0"
  shows "numBlankCells (cellSet b row col v) < numBlankCells b"
  unfolding numBlankCells_def
proof (rule length_filter_less_mono[of _ _ _ "(row, col)"])
  fix x assume "x \<in> set allCells" "cellAt (cellSet b row col v) (fst x) (snd x) = 0"
  then show "cellAt b (fst x) (snd x) = 0"
    using assms(5) by (simp add: cellAt_cellSet[OF assms(1-3)] split: if_splits)
next
  show "(row, col) \<in> set allCells" using assms(2,3) by simp
  show "cellAt b (fst (row, col)) (snd (row, col)) = 0" using assms(4) by simp
  show "\<not> cellAt (cellSet b row col v) (fst (row, col)) (snd (row, col)) = 0"
    using assms(5) by (simp add: cellAt_cellSet[OF assms(1-3)])
qed

lemma cluesKept_numBlankCells: "cluesKept b b' \<Longrightarrow> numBlankCells b' \<le> numBlankCells b"
  unfolding numBlankCells_def
proof (rule length_filter_mono)
  fix x assume k: "cluesKept b b'" and x: "x \<in> set allCells" "cellAt b' (fst x) (snd x) = 0"
  obtain r c where xe: "x = (r, c)" by (cases x)
  have rc: "r < 9" "c < 9" using x(1) xe by simp_all
  have "cellAt b r c \<noteq> 0 \<Longrightarrow> cellAt b' r c = cellAt b r c"
    using k rc by (simp add: cluesKept_iff)
  then show "cellAt b (fst x) (snd x) = 0" using x(2) xe by auto
qed

lemma tryCandidates_total:
  "\<forall>v\<in>set vs. subSolve (subPuzzleFor p v) \<noteq> None \<Longrightarrow> tryCandidates subSolve vb p vs \<noteq> None"
proof (induction vs)
  case Nil
  show ?case by simp
next
  case (Cons v vs)
  obtain solved sub m1 where a: "subSolve (subPuzzleFor p v) = Some ((solved, sub), m1)"
    using Cons.prems by (cases "subSolve (subPuzzleFor p v)") auto
  obtain r m2 where b: "tryCandidates subSolve vb p vs = Some (r, m2)"
    using Cons.IH Cons.prems by (cases "tryCandidates subSolve vb p vs") auto
  show ?case using a b by (auto simp: subPuzzleFor_def)
qed

text \<open>The state in which the propagation loop hands over to the branch.\<close>

lemma solveLoop_Stalled_cell:
  assumes sl: "solveLoop vb 50 (setAllPossibilities p) = ((Stalled, p1), m1)"
    and wf: "wf_board (board p)"
  shows "tableOk p1" "cluesKept (board p) (board p1)" "minTracked (set allCells) p1"
    "minRow p1 < 9" "minCol p1 < 9"
    "\<exists>s. map_of (possibilities p1) (minRow p1, minCol p1) = Some s
          \<and> length s = minPossibilities p1 \<and> 2 \<le> length s \<and> sorted s \<and> distinct s \<and> 0 \<notin> set s"
    "cellAt (board p1) (minRow p1) (minCol p1) = 0"
proof -
  have t0: "tableOk (setAllPossibilities p)" by (rule tableOk_setAllPossibilities[OF wf])
  show t1: "tableOk p1" using solveLoop_tableOk[OF sl t0] by simp
  show "cluesKept (board p) (board p1)" using solveLoop_tableOk[OF sl t0] by simp
  obtain q n mq where q: "tableOk q" "trimPossibilities vb q = ((n, p1), mq)" "n \<noteq> - 1" "n \<noteq> 0"
    using solveLoop_Stalled[OF sl t0] by blast
  note mt = trimPossibilities_minTracked[OF q(2) q(1) q(3) q(4)]
  show "minTracked (set allCells) p1" by (rule mt(1))
  show rng: "minRow p1 < 9" "minCol p1 < 9"
    using mt by (auto simp: minTracked_def)
  obtain s where s: "map_of (possibilities p1) (minRow p1, minCol p1) = Some s"
    "length s = minPossibilities p1"
    using mt by (auto simp: minTracked_def)
  have cok: "cellOk p1 (minRow p1) (minCol p1)" using t1 rng by (simp add: tableOk_iff)
  have so: "sorted s" "distinct s" "0 \<notin> set s" "cellAt (board p1) (minRow p1) (minCol p1) = 0"
    using cok s(1) by (simp_all add: cellOk_def)
  have l2: "2 \<le> length s" using mt(1) s(1) rng by (auto simp: minTracked_def)
  show "\<exists>s. map_of (possibilities p1) (minRow p1, minCol p1) = Some s
          \<and> length s = minPossibilities p1 \<and> 2 \<le> length s \<and> sorted s \<and> distinct s \<and> 0 \<notin> set s"
    using s so l2 by blast
  show "cellAt (board p1) (minRow p1) (minCol p1) = 0" by (rule so(4))
qed

lemma subPuzzleFor_board:
  "board (subPuzzleFor p v) = cellSet (board p) (minRow p) (minCol p) v"
  by (simp add: subPuzzleFor_def setValue_def SudokuPuzzle_def)

text \<open>\<open>solve\<close> returns: a bound above the number of blank cells is never reached, and the
  branch never reads a missing set.\<close>

lemma solve_fuel_total:
  "wf_board (board p) \<Longrightarrow> numBlankCells (board p) < d \<Longrightarrow> \<exists>r. solve_fuel d vb p = Some r"
proof (induction d arbitrary: vb p)
  case 0
  then show ?case by simp
next
  case (Suc d)
  obtain out p1 m1 where sl: "solveLoop vb 50 (setAllPossibilities p) = ((out, p1), m1)"
    by (metis prod.exhaust)
  show ?case
  proof (cases out)
    case Unsolvable
    then show ?thesis by (auto simp: solve_fuel_Suc[OF sl])
  next
    case Solved
    then show ?thesis by (auto simp: solve_fuel_Suc[OF sl])
  next
    case Stalled
    note sl' = sl[unfolded Stalled]
    note c = solveLoop_Stalled_cell[OF sl' Suc.prems(1)]
    obtain s where s: "map_of (possibilities p1) (minRow p1, minCol p1) = Some s" "0 \<notin> set s"
      using c(6) by blast
    have w1: "wf_board (board p1)" using c(1) by (simp add: tableOk_iff)
    have nb: "numBlankCells (board p1) \<le> numBlankCells (board p)"
      by (rule cluesKept_numBlankCells[OF c(2)])
    have "\<forall>v\<in>set s. solve_fuel d False (subPuzzleFor p1 v) \<noteq> None"
    proof
      fix v assume v: "v \<in> set s"
      then have v0: "v \<noteq> 0" using s(2) by auto
      have a: "wf_board (board (subPuzzleFor p1 v))"
        by (simp add: subPuzzleFor_board wf_board_cellSet[OF w1])
      have "numBlankCells (board (subPuzzleFor p1 v)) < numBlankCells (board p1)"
        unfolding subPuzzleFor_board
        by (rule numBlankCells_cellSet[OF w1 c(4) c(5) c(7) v0])
      then have b: "numBlankCells (board (subPuzzleFor p1 v)) < d" using nb Suc.prems(2) by simp
      from Suc.IH[OF a b] show "solve_fuel d False (subPuzzleFor p1 v) \<noteq> None" by auto
    qed
    from tryCandidates_total[OF this]
    obtain r where "tryCandidates (solve_fuel d False) vb p1 s = Some r" by blast
    then show ?thesis using c(4,5) s(1) Stalled
      by (cases r) (auto simp: solve_fuel_Suc[OF sl])
  qed
qed

lemma solve_total: "wf_board (board p) \<Longrightarrow> \<exists>r. solve vb p = Some r"
  unfolding solve_def
  by (rule solve_fuel_total) (use numBlankCells_le[of "board p"] in simp_all)


lemma tryCandidates_tried:
  assumes tot: "\<forall>v\<in>set vs. subSolve (subPuzzleFor p v) \<noteq> None"
    and succ: "\<And>v. succ v = (case subSolve (subPuzzleFor p v) of
                              Some ((solved, sub), m) \<Rightarrow> solved | None \<Rightarrow> False)"
  shows "tryCandidates subSolve vb p vs =
     Some ((case find succ vs of
              None \<Rightarrow> (False, p)
            | Some v \<Rightarrow> (True, copyBlanks p (snd (fst (the (subSolve (subPuzzleFor p v))))))),
           concat (map (\<lambda>v. (if vb then [CreatingSubPuzzle v] else [])
                             @ snd (the (subSolve (subPuzzleFor p v))))
                    (case find succ vs of
                       None \<Rightarrow> vs
                     | Some v \<Rightarrow> takeWhile (\<lambda>u. \<not> succ u) vs @ [v])))"
  using tot
proof (induction vs)
  case Nil
  show ?case by simp
next
  case (Cons v vs)
  obtain solved sub m1 where a: "subSolve (subPuzzleFor p v) = Some ((solved, sub), m1)"
    using Cons.prems by (cases "subSolve (subPuzzleFor p v)") auto
  have a': "subSolve (setValue (SudokuPuzzle (board p)) (minRow p) (minCol p) v)
              = Some ((solved, sub), m1)" using a by (simp add: subPuzzleFor_def)
  have sv: "succ v = solved" using a by (simp add: succ)
  show ?case
  proof (cases solved)
    case True
    then show ?thesis using a a' sv by simp
  next
    case False
    have ih: "tryCandidates subSolve vb p vs =
       Some ((case find succ vs of None \<Rightarrow> (False, p)
              | Some v \<Rightarrow> (True, copyBlanks p (snd (fst (the (subSolve (subPuzzleFor p v))))))),
           concat (map (\<lambda>v. (if vb then [CreatingSubPuzzle v] else [])
                             @ snd (the (subSolve (subPuzzleFor p v))))
                    (case find succ vs of None \<Rightarrow> vs
                     | Some v \<Rightarrow> takeWhile (\<lambda>u. \<not> succ u) vs @ [v])))"
      using Cons.IH Cons.prems by simp
    show ?thesis
      using False a a' sv ih by (simp split: option.splits)
  qed
qed

text \<open>Claim C2.  When the propagation loop of \<open>solve\<close> stops with blank cells left, the
  cell recorded in \<open>minRow\<close>, \<open>minCol\<close> is a blank cell of the grid whose candidate set \<open>s\<close>
  is the smallest of all candidate sets (which are exactly at the blank cells), and among
  the cells with a set of that size it is the first in row-major order (lowest row, then
  lowest column).  The candidates are held in ascending order without repetition.  Given
  a depth bound that is at least the number of blank cells, the recursive \<open>solve\<close> of every
  candidate returns, and \<open>solve\<close> itself returns \<open>branchResult\<close>: the grid of the first
  candidate, in ascending order, whose recursive \<open>solve\<close> on a fresh object (the current
  grid with the candidate written at the recorded cell) returns true, copied into the
  cells that were blank and into no other cell; or false with the grid unchanged when
  the recursive \<open>solve\<close> returned false for every candidate.  The output is that of the
  propagation loop followed by that of the candidates tried, in ascending order, up to
  and including the first that succeeds: no candidate after it is tried.\<close>

theorem solve_branches_on_most_constrained_cell:
  assumes wf: "wf_board (board p)"
    and st: "fst (fst (solveLoop vb 50 (setAllPossibilities p))) = Stalled"
    and p1: "p1 = snd (fst (solveLoop vb 50 (setAllPossibilities p)))"
    and fuel: "numBlankCells (board p) \<le> depth"
  shows "minRow p1 < 9 \<and> minCol p1 < 9
     \<and> (\<forall>row col. row < 9 \<longrightarrow> col < 9 \<longrightarrow>
           (map_of (possibilities p1) (row, col) \<noteq> None) = (cellAt (board p1) row col = 0))
     \<and> (\<exists>s. map_of (possibilities p1) (minRow p1, minCol p1) = Some s
            \<and> sorted s \<and> distinct s \<and> 2 \<le> length s
            \<and> (\<forall>row col t. row < 9 \<longrightarrow> col < 9 \<longrightarrow> map_of (possibilities p1) (row, col) = Some t \<longrightarrow>
                  length s \<le> length t
                  \<and> (length t = length s \<longrightarrow>
                        (minRow p1, minCol p1) = (row, col)
                        \<or> rowMajorLess (minRow p1, minCol p1) (row, col)))
            \<and> (\<forall>v\<in>set s. \<exists>ok sub m1.
                  solve_fuel depth False (subPuzzleFor p1 v) = Some ((ok, sub), m1)
                  \<and> ok = branchSolves depth p1 v)
            \<and> solve_fuel (Suc depth) vb p
                = Some (branchResult depth p1 s,
                        snd (solveLoop vb 50 (setAllPossibilities p))
                        @ (if vb then [MinPossibilitiesIs (minPossibilities p1) (minRow p1) (minCol p1)]
                           else [])
                        @ branchMessages depth vb p1 s))
     \<and> (\<forall>sub row col. row < 9 \<longrightarrow> col < 9 \<longrightarrow>
           cellAt (board (copyBlanks p1 sub)) row col
             = (if cellAt (board p1) row col = 0 then cellAt (board sub) row col
                else cellAt (board p1) row col))"
proof -
  obtain m1 where sl: "solveLoop vb 50 (setAllPossibilities p) = ((Stalled, p1), m1)"
    using st p1 by (cases "solveLoop vb 50 (setAllPossibilities p)") auto
  note c = solveLoop_Stalled_cell[OF sl wf]
  have w1: "wf_board (board p1)" using c(1) by (simp add: tableOk_iff)
  have rng: "minRow p1 < 9" "minCol p1 < 9" by (rule c(4), rule c(5))
  obtain s where s: "map_of (possibilities p1) (minRow p1, minCol p1) = Some s"
    "length s = minPossibilities p1" "2 \<le> length s" "sorted s" "distinct s" "0 \<notin> set s"
    using c(6) by blast
  have cok: "\<And>row col. row < 9 \<Longrightarrow> col < 9 \<Longrightarrow> cellOk p1 row col"
    using c(1) by (simp add: tableOk_iff)
  have blank: "\<forall>row col. row < 9 \<longrightarrow> col < 9 \<longrightarrow>
           (map_of (possibilities p1) (row, col) \<noteq> None) = (cellAt (board p1) row col = 0)"
  proof (intro allI impI)
    fix row col :: nat assume "row < 9" "col < 9"
    then show "(map_of (possibilities p1) (row, col) \<noteq> None) = (cellAt (board p1) row col = 0)"
      using cok[of row col] by (auto simp: cellOk_def split: option.splits)
  qed
  have least: "\<forall>row col t. row < 9 \<longrightarrow> col < 9 \<longrightarrow> map_of (possibilities p1) (row, col) = Some t \<longrightarrow>
                  length s \<le> length t
                  \<and> (length t = length s \<longrightarrow>
                        (minRow p1, minCol p1) = (row, col)
                        \<or> rowMajorLess (minRow p1, minCol p1) (row, col))"
  proof (intro allI impI)
    fix row col :: nat and t assume a: "row < 9" "col < 9" "map_of (possibilities p1) (row, col) = Some t"
    have in_all: "(row, col) \<in> set allCells" using a by simp
    have "\<forall>x\<in>set allCells. \<forall>t. map_of (possibilities p1) x = Some t \<longrightarrow>
               2 \<le> length t \<and> minPossibilities p1 \<le> length t
               \<and> (length t = minPossibilities p1 \<longrightarrow>
                     (minRow p1, minCol p1) = x \<or> rowMajorLess (minRow p1, minCol p1) x)"
      using c(3) unfolding minTracked_def by (rule conjunct1)
    from bspec[OF this in_all] a(3)
    have "minPossibilities p1 \<le> length t
               \<and> (length t = minPossibilities p1 \<longrightarrow>
                     (minRow p1, minCol p1) = (row, col) \<or> rowMajorLess (minRow p1, minCol p1) (row, col))"
      by simp
    then show "length s \<le> length t
                  \<and> (length t = length s \<longrightarrow>
                        (minRow p1, minCol p1) = (row, col)
                        \<or> rowMajorLess (minRow p1, minCol p1) (row, col))"
      unfolding s(2) .
  qed
  have nb: "numBlankCells (board p1) \<le> numBlankCells (board p)"
    by (rule cluesKept_numBlankCells[OF c(2)])
  have tot: "\<forall>v\<in>set s. \<exists>ok sub m1.
                  solve_fuel depth False (subPuzzleFor p1 v) = Some ((ok, sub), m1)
                  \<and> ok = branchSolves depth p1 v"
  proof
    fix v assume v: "v \<in> set s"
    then have v0: "v \<noteq> 0" using s(6) by auto
    have a: "wf_board (board (subPuzzleFor p1 v))"
      by (simp add: subPuzzleFor_board wf_board_cellSet[OF w1])
    have "numBlankCells (board (subPuzzleFor p1 v)) < numBlankCells (board p1)"
      unfolding subPuzzleFor_board
      by (rule numBlankCells_cellSet[OF w1 c(4) c(5) c(7) v0])
    then have b: "numBlankCells (board (subPuzzleFor p1 v)) < depth" using nb fuel by simp
    from solve_fuel_total[OF a b] obtain r where "solve_fuel depth False (subPuzzleFor p1 v) = Some r"
      by blast
    then show "\<exists>ok sub m1.
                  solve_fuel depth False (subPuzzleFor p1 v) = Some ((ok, sub), m1)
                  \<and> ok = branchSolves depth p1 v"
      by (cases r) (auto simp: branchSolves_def)
  qed
  then have tot': "\<forall>v\<in>set s. solve_fuel depth False (subPuzzleFor p1 v) \<noteq> None" by auto
  have tr: "tryCandidates (solve_fuel depth False) vb p1 s
              = Some (branchResult depth p1 s, branchMessages depth vb p1 s)"
    unfolding branchResult_def branchMessages_def triedCandidates_def
    by (rule tryCandidates_tried[OF tot']) (simp add: branchSolves_def)
  have res: "solve_fuel (Suc depth) vb p
                = Some (branchResult depth p1 s,
                        snd (solveLoop vb 50 (setAllPossibilities p))
                        @ (if vb then [MinPossibilitiesIs (minPossibilities p1) (minRow p1) (minCol p1)]
                           else [])
                        @ branchMessages depth vb p1 s)"
    using rng s(1) tr by (simp add: solve_fuel_Suc[OF sl] sl)
  have cp: "\<forall>sub row col. row < 9 \<longrightarrow> col < 9 \<longrightarrow>
           cellAt (board (copyBlanks p1 sub)) row col
             = (if cellAt (board p1) row col = 0 then cellAt (board sub) row col
                else cellAt (board p1) row col)"
    using copyBlanks_cell[OF w1] by blast
  show ?thesis using rng blank s(1,3,4,5) least tot res cp by blast
qed

theorem solve_branches_on_most_constrained_cell_witness:
  "wf_board (board (SudokuPuzzle firstFailing))
   \<and> fst (fst (solveLoop False 50 (setAllPossibilities (SudokuPuzzle firstFailing)))) = Stalled
   \<and> numBlankCells (board (SudokuPuzzle firstFailing)) \<le> 8
   \<and> map_of (possibilities (snd (fst (solveLoop False 50 (setAllPossibilities (SudokuPuzzle firstFailing))))))
         (6, 2) = Some [4, 6]
   \<and> (case solve_fuel (Suc 8) False (SudokuPuzzle firstFailing) of
         None \<Rightarrow> False
       | Some ((ok, p'), m) \<Rightarrow> ok \<and> board p' = puzzle3 \<and> cellAt (board p') 6 2 = 6)
   \<and> minRow (snd (fst (solveLoop False 50 (setAllPossibilities (SudokuPuzzle firstFailing))))) < 9
   \<and> wf_board (board (SudokuPuzzle bothFailing))
   \<and> fst (fst (solveLoop False 50 (setAllPossibilities (SudokuPuzzle bothFailing)))) = Stalled
   \<and> numBlankCells (board (SudokuPuzzle bothFailing)) \<le> 13
   \<and> (case solve_fuel (Suc 13) False (SudokuPuzzle bothFailing) of
         None \<Rightarrow> False
       | Some ((ok, p'), m) \<Rightarrow> \<not> ok)
   \<and> minRow (snd (fst (solveLoop False 50 (setAllPossibilities (SudokuPuzzle bothFailing))))) < 9"
proof -
  define P1 where "P1 = snd (fst (solveLoop False 50 (setAllPossibilities (SudokuPuzzle firstFailing))))"
  define Q1 where "Q1 = snd (fst (solveLoop False 50 (setAllPossibilities (SudokuPuzzle bothFailing))))"
  have h1: "wf_board (board (SudokuPuzzle firstFailing))" by code_simp
  have h2: "fst (fst (solveLoop False 50 (setAllPossibilities (SudokuPuzzle firstFailing)))) = Stalled"
    by code_simp
  have h3: "numBlankCells (board (SudokuPuzzle firstFailing)) \<le> 8" by code_simp
  have h4: "map_of (possibilities P1) (6, 2) = Some [4, 6]" unfolding P1_def by code_simp
  have h5: "(case solve_fuel (Suc 8) False (SudokuPuzzle firstFailing) of
         None \<Rightarrow> False
       | Some ((ok, p'), m) \<Rightarrow> ok \<and> board p' = puzzle3 \<and> cellAt (board p') 6 2 = 6)" by code_simp
  have g1: "wf_board (board (SudokuPuzzle bothFailing))" by code_simp
  have g2: "fst (fst (solveLoop False 50 (setAllPossibilities (SudokuPuzzle bothFailing)))) = Stalled"
    by code_simp
  have g3: "numBlankCells (board (SudokuPuzzle bothFailing)) \<le> 13" by code_simp
  have g5: "(case solve_fuel (Suc 13) False (SudokuPuzzle bothFailing) of
         None \<Rightarrow> False
       | Some ((ok, p'), m) \<Rightarrow> \<not> ok)" by code_simp
  from solve_branches_on_most_constrained_cell[OF h1 h2 P1_def h3]
  have a: "minRow P1 < 9" by blast
  from solve_branches_on_most_constrained_cell[OF g1 g2 Q1_def g3]
  have b: "minRow Q1 < 9" by blast
  show ?thesis using h1 h2 h3 h4 h5 a g1 g2 g3 g5 b unfolding P1_def Q1_def by blast
qed

section \<open>The pass, cell by cell\<close>

lemma rowMajorLess_trans: "rowMajorLess x y \<Longrightarrow> rowMajorLess y z \<Longrightarrow> rowMajorLess x z"
  by (auto simp: rowMajorLess_def)

lemma rowMajorLess_irrefl: "\<not> rowMajorLess x x"
  by (simp add: rowMajorLess_def)

lemma wf_board_eqI:
  assumes "wf_board b" "wf_board b'"
    and "\<And>r c. r < 9 \<Longrightarrow> c < 9 \<Longrightarrow> cellAt b r c = cellAt b' r c"
  shows "b = b'"
proof (rule nth_equalityI)
  show "length b = length b'" using assms by (simp add: wf_board_def)
next
  fix r assume "r < length b"
  then have r: "r < 9" using assms(1) by (simp add: wf_board_def)
  have l: "length (b ! r) = 9" "length (b' ! r) = 9"
    using assms(1,2) r by (simp_all add: wf_board_def list_all_length)
  show "b ! r = b' ! r"
  proof (rule nth_equalityI)
    show "length (b ! r) = length (b' ! r)" using l by simp
  next
    fix c assume "c < length (b ! r)"
    then have "c < 9" using l by simp
    from assms(3)[OF r this] show "b ! r ! c = b' ! r ! c" by (simp add: cellAt_def)
  qed
qed

lemma wf_boardWhenReached: "wf_board (boardWhenReached p p' x)"
  by (simp add: boardWhenReached_def wf_board_def list_all_iff)

lemma cellAt_boardWhenReached:
  "r < 9 \<Longrightarrow> c < 9 \<Longrightarrow>
     cellAt (boardWhenReached p p' x) r c
       = (if rowMajorLess (r, c) x then cellAt (board p') r c else cellAt (board p) r c)"
  by (simp add: boardWhenReached_def cellAt_def)

lemma boardWhenReached_cong:
  assumes "\<And>r c. r < 9 \<Longrightarrow> c < 9 \<Longrightarrow> rowMajorLess (r, c) x \<Longrightarrow>
             cellAt (board q') r c = cellAt (board q) r c"
  shows "boardWhenReached p q' x = boardWhenReached p q x"
  by (rule wf_board_eqI[OF wf_boardWhenReached wf_boardWhenReached])
     (simp add: cellAt_boardWhenReached assms)

lemma cellTrimmed_cong:
  "boardWhenReached p q' (r, c) = boardWhenReached p q (r, c) \<Longrightarrow>
   cellAt (board q') r c = cellAt (board q) r c \<Longrightarrow>
   map_of (possibilities q') (r, c) = map_of (possibilities q) (r, c) \<Longrightarrow>
   cellTrimmed p q' r c = cellTrimmed p q r c"
  by (simp add: cellTrimmed_def cong: option.case_cong)


lemma trimCell_frame:
  assumes tc: "trimCell vb row col q j = ((ret, q', j'), mm)"
    and t: "tableOk q" and r: "row < 9" "col < 9"
    and d: "(r, c) \<noteq> (row, col)" and rc: "r < 9" "c < 9"
  shows "cellAt (board q') r c = cellAt (board q) r c"
    and "map_of (possibilities q') (r, c) = map_of (possibilities q) (r, c)"
proof -
  have wf: "wf_board (board q)" using t by (simp add: tableOk_iff)
  have "cellAt (board q') r c = cellAt (board q) r c
        \<and> map_of (possibilities q') (r, c) = map_of (possibilities q) (r, c)"
  proof (cases "map_of (possibilities q) (row, col)")
    case None
    then show ?thesis using trimCell_null[OF tc None] by simp
  next
    case (Some s)
    have "cellOk q row col" using t r by (simp add: tableOk_iff)
    then have z: "cellAt (board q) row col = 0" using Some by (simp add: cellOk_def)
    define s' where "s' = filter (\<lambda>v. placeOk (board q) v row col) s"
    note b = trimCell_blank[OF tc Some z s'_def]
    consider "s' = []" | v where "s' = [v]" | "2 \<le> length s'"
      using list_shape[of s'] by blast
    then show ?thesis
    proof cases
      case 1
      show ?thesis using b(1)[OF 1] d by (auto simp: update_conv')
    next
      case 2
      show ?thesis using b(2)[OF 2] d
        by (auto simp: update_conv' delete_conv' cellAt_cellSet[OF wf r])
    next
      case 3
      have p': "possibilities q' = AList.update (row, col) s' (possibilities q)" "board q' = board q"
        using b(3)[OF 3] by (auto split: if_splits)
      show ?thesis using d by (auto simp: p' update_conv')
    qed
  qed
  then show "cellAt (board q') r c = cellAt (board q) r c"
    and "map_of (possibilities q') (r, c) = map_of (possibilities q) (r, c)" by simp_all
qed

lemma trimCell_step:
  assumes tc: "trimCell vb row col q j = ((ret, q', j'), mm)"
    and t: "tableOk q" and r: "row < 9" "col < 9"
    and reached: "board q = boardWhenReached p q' (row, col)"
    and same: "untouched p q row col"
  shows "if ret then stoppedAt p q' row col
         else cellTrimmed p q' row col
              \<and> j' = j + (if cellAt (board q') row col = 0 then 1 else 0)"
proof (cases "map_of (possibilities q) (row, col)")
  case None
  have "cellOk q row col" using t r by (simp add: tableOk_iff)
  then have nz: "cellAt (board q) row col \<noteq> 0" using None by (simp add: cellOk_def)
  show ?thesis using trimCell_null[OF tc None] None same nz
    by (simp add: cellTrimmed_def untouched_def)
next
  case (Some s)
  have wf: "wf_board (board q)" using t by (simp add: tableOk_iff)
  have ok: "cellOk q row col" using t r by (simp add: tableOk_iff)
  have z: "cellAt (board q) row col = 0" "0 \<notin> set s"
    using ok Some by (simp_all add: cellOk_def)
  have sp: "map_of (possibilities p) (row, col) = Some s" using same Some by (simp add: untouched_def)
  define s' where "s' = filter (\<lambda>v. placeOk (board q) v row col) s"
  have s'r: "filter (\<lambda>v. placeOk (boardWhenReached p q' (row, col)) v row col) s = s'"
    by (simp add: s'_def reached)
  have n0: "0 \<notin> set s'" using z(2) by (simp add: s'_def)
  note b = trimCell_blank[OF tc Some z(1) s'_def]
  consider "s' = []" | v where "s' = [v]" | "2 \<le> length s'"
    using list_shape[of s'] by blast
  then show ?thesis
  proof cases
    case 1
    have "ret" "board q' = board q" "map_of (possibilities q') (row, col) = Some []"
      using b(1)[OF 1] by (simp_all add: update_conv')
    then show ?thesis using sp s'r 1 z(1) by (simp add: stoppedAt_def)
  next
    case 2
    have v0: "v \<noteq> 0" using n0 2 by auto
    have "\<not> ret" "j' = j" "cellAt (board q') row col = v" "map_of (possibilities q') (row, col) = None"
      using b(2)[OF 2] by (simp_all add: update_conv' delete_conv' cellAt_cellSet[OF wf r])
    then show ?thesis using sp s'r 2 v0 by (simp add: cellTrimmed_def)
  next
    case 3
    have "\<not> ret" "j' = j + 1" "board q' = board q" "map_of (possibilities q') (row, col) = Some s'"
      using b(3)[OF 3] by (auto simp: update_conv' split: if_splits)
    moreover have "s' \<noteq> []" "length s' \<noteq> Suc 0" using 3 by auto
    ultimately show ?thesis using sp s'r z(1) by (simp add: cellTrimmed_def)
  qed
qed

lemma allCells_split:
  assumes "allCells = seen @ x # rest"
  shows "\<forall>y\<in>set seen. rowMajorLess y x" "\<forall>y\<in>set rest. rowMajorLess x y"
    "x \<notin> set seen" "x \<notin> set rest" "x \<in> set allCells" "set seen \<subseteq> set allCells"
proof -
  have so: "sorted_wrt rowMajorLess (seen @ x # rest)" using sorted_allCells assms by simp
  show a: "\<forall>y\<in>set seen. rowMajorLess y x" using so by (simp add: sorted_wrt_append)
  show b: "\<forall>y\<in>set rest. rowMajorLess x y" using so by (simp add: sorted_wrt_append)
  show "x \<notin> set seen" using a rowMajorLess_irrefl by blast
  show "x \<notin> set rest" using b rowMajorLess_irrefl by blast
  show "x \<in> set allCells" "set seen \<subseteq> set allCells" unfolding assms by auto
qed

lemma passInv_step:
  assumes sp: "allCells = seen @ (row, col) # rest"
    and inv: "passInv p seen False q j"
    and tc: "trimCell vb row col q j = ((ret, q', j'), mm)"
  shows "passInv p (seen @ [(row, col)]) ret q' j'"
proof -
  note sc = allCells_split[OF sp]
  have r: "row < 9" "col < 9" using sc(5) by simp_all
  have t: "tableOk q" using inv by (simp add: passInv_def)
  have un: "\<And>r c. r < 9 \<Longrightarrow> c < 9 \<Longrightarrow> (r, c) \<notin> set seen \<Longrightarrow> untouched p q r c"
    using inv by (simp add: passInv_def)
  have tr: "\<And>x. x \<in> set seen \<Longrightarrow> cellTrimmed p q (fst x) (snd x)"
    using inv by (simp add: passInv_def)
  have cnt: "j = int (length (filter (\<lambda>x. cellAt (board q) (fst x) (snd x) = 0) seen))"
    using inv by (simp add: passInv_def)
  have t': "tableOk q'" using trimCell_tableOk[OF tc t r] by simp
  note fr = trimCell_frame[OF tc t r]
  have reached: "board q = boardWhenReached p q' (row, col)"
  proof (rule wf_board_eqI[OF _ wf_boardWhenReached])
    show "wf_board (board q)" using t by (simp add: tableOk_iff)
  next
    fix a b :: nat assume ab: "a < 9" "b < 9"
    show "cellAt (board q) a b = cellAt (boardWhenReached p q' (row, col)) a b"
    proof (cases "rowMajorLess (a, b) (row, col)")
      case True
      then have "(a, b) \<noteq> (row, col)" using rowMajorLess_irrefl by metis
      from fr(1)[OF this ab] True show ?thesis by (simp add: cellAt_boardWhenReached[OF ab])
    next
      case False
      then have "(a, b) \<notin> set seen" using sc(1) by blast
      from un[OF ab this] False show ?thesis
        by (simp add: cellAt_boardWhenReached[OF ab] untouched_def)
    qed
  qed
  have same: "untouched p q row col" using un[OF r sc(3)] .
  note st = trimCell_step[OF tc t r reached same]
  have un': "\<forall>r c. r < 9 \<longrightarrow> c < 9 \<longrightarrow> (r, c) \<notin> set (seen @ [(row, col)]) \<longrightarrow> untouched p q' r c"
  proof (intro allI impI)
    fix a b :: nat assume ab: "a < 9" "b < 9" "(a, b) \<notin> set (seen @ [(row, col)])"
    then have d: "(a, b) \<noteq> (row, col)" "(a, b) \<notin> set seen" by auto
    show "untouched p q' a b"
      using un[OF ab(1,2) d(2)] fr(1)[OF d(1) ab(1,2)] fr(2)[OF d(1) ab(1,2)]
      by (simp add: untouched_def)
  qed
  have old: "\<And>x. x \<in> set seen \<Longrightarrow>
      cellTrimmed p q' (fst x) (snd x)
      \<and> cellAt (board q') (fst x) (snd x) = cellAt (board q) (fst x) (snd x)"
  proof -
    fix x assume x: "x \<in> set seen"
    obtain a b where xe: "x = (a, b)" by (cases x)
    have ab: "a < 9" "b < 9" using x sc(6) xe by auto
    have lt: "rowMajorLess (a, b) (row, col)" using sc(1) x xe by blast
    have d: "(a, b) \<noteq> (row, col)" using sc(3) x xe by auto
    have bw: "boardWhenReached p q' (a, b) = boardWhenReached p q (a, b)"
    proof (rule boardWhenReached_cong)
      fix u v :: nat assume uv: "u < 9" "v < 9" "rowMajorLess (u, v) (a, b)"
      have "rowMajorLess (u, v) (row, col)" using rowMajorLess_trans[OF uv(3) lt] .
      then have "(u, v) \<noteq> (row, col)" using rowMajorLess_irrefl by metis
      from fr(1)[OF this uv(1,2)] show "cellAt (board q') u v = cellAt (board q) u v" .
    qed
    have "cellTrimmed p q' a b = cellTrimmed p q a b"
      by (rule cellTrimmed_cong[OF bw fr(1)[OF d ab] fr(2)[OF d ab]])
    then show "cellTrimmed p q' (fst x) (snd x)
      \<and> cellAt (board q') (fst x) (snd x) = cellAt (board q) (fst x) (snd x)"
      using tr[OF x] fr(1)[OF d ab] by (simp add: xe)
  qed
  have fl: "filter (\<lambda>x. cellAt (board q') (fst x) (snd x) = 0) seen
            = filter (\<lambda>x. cellAt (board q) (fst x) (snd x) = 0) seen"
    by (rule filter_cong[OF refl]) (simp add: old)
  show ?thesis
  proof (cases ret)
    case True
    then have "stoppedAt p q' row col" using st by simp
    then have "\<exists>row' col' sn. seen @ [(row, col)] = sn @ [(row', col')] \<and> stoppedAt p q' row' col'
                   \<and> (\<forall>x\<in>set sn. cellTrimmed p q' (fst x) (snd x))"
      using old by blast
    then show ?thesis using True t' un' unfolding passInv_def by simp
  next
    case False
    then have s2: "cellTrimmed p q' row col"
      "j' = j + (if cellAt (board q') row col = 0 then 1 else 0)" using st by simp_all
    have "\<forall>x\<in>set (seen @ [(row, col)]). cellTrimmed p q' (fst x) (snd x)"
      using old s2(1) by auto
    moreover have "j' = int (length (filter (\<lambda>x. cellAt (board q') (fst x) (snd x) = 0) (seen @ [(row, col)])))"
      using s2(2) cnt fl by simp
    ultimately show ?thesis using False t' un' unfolding passInv_def by simp
  qed
qed

text \<open>Claim C1 (as amended).  One pass of \<open>trimPossibilities\<close> over an object whose table
  holds a set exactly at the blank cells visits the cells in row-major order and stops at
  the first cell whose set becomes empty: it returns -1 there, the cells before it being
  trimmed and the cells after it left as they were.  At every cell it reaches that has a
  set, it keeps exactly the values that \<open>wouldWork\<close> accepts on the grid as it stands when
  the cell is reached, that is the values with which, once placed, the row, the column
  and the box of the cell hold no duplicate non-zero digit (\<open>placeOk\<close>); when one of these
  units already holds a duplicate, that is no value at all.  If the set becomes a single
  value, that value is written into the grid at once, so that the cells visited later
  are checked against it, and the set is removed.  If the pass does not return -1, every
  cell has been trimmed in this way and the number returned is the number of cells that
  are blank after the pass.\<close>

theorem trimPossibilities_pass:
  assumes t: "tableOk p" and tp: "trimPossibilities vb p = ((n, p'), m)"
  shows "if n = - 1
         then \<exists>row col. row < 9 \<and> col < 9 \<and> stoppedAt p p' row col
                \<and> (\<forall>r c. r < 9 \<longrightarrow> c < 9 \<longrightarrow>
                      (rowMajorLess (r, c) (row, col) \<longrightarrow> cellTrimmed p p' r c)
                      \<and> (rowMajorLess (row, col) (r, c) \<longrightarrow> untouched p p' r c))
         else (\<forall>r c. r < 9 \<longrightarrow> c < 9 \<longrightarrow> cellTrimmed p p' r c)
              \<and> n = int (numBlankCells (board p'))"
proof -
  define p0 where "p0 = p\<lparr>minPossibilities := 10, minRow := 10, minCol := 10\<rparr>"
  obtain m0 where tl: "trimLoop vb allCells p0 0 = ((n, p'), m0)"
    using tp by (auto simp: trimPossibilities_def p0_def Let_def split: prod.splits)
  have t0: "tableOk p0" using t by (simp add: tableOk_def p0_def)
  have init: "passInv p [] False p0 0"
    using t0 by (simp add: passInv_def untouched_def p0_def)
  have "(\<exists>seen'. passInv p seen' True p' (- 1) \<and> n = - 1 \<and> (\<exists>rest. allCells = seen' @ rest))
        \<or> passInv p allCells False p' n"
    by (rule trimLoop_rule[where I="passInv p", OF tl init]) (rule passInv_step)
  then show ?thesis
  proof
    assume "\<exists>seen'. passInv p seen' True p' (- 1) \<and> n = - 1 \<and> (\<exists>rest. allCells = seen' @ rest)"
    then obtain seen' rest where a: "passInv p seen' True p' (- 1)" "n = - 1" "allCells = seen' @ rest"
      by blast
    from a(1) obtain row col sn where b: "seen' = sn @ [(row, col)]" "stoppedAt p p' row col"
      "\<forall>x\<in>set sn. cellTrimmed p p' (fst x) (snd x)"
      unfolding passInv_def by auto
    have un: "\<And>r c. r < 9 \<Longrightarrow> c < 9 \<Longrightarrow> (r, c) \<notin> set seen' \<Longrightarrow> untouched p p' r c"
      using a(1) unfolding passInv_def by simp
    have sp: "allCells = sn @ (row, col) # rest" using a(3) b(1) by simp
    note sc = allCells_split[OF sp]
    have r: "row < 9" "col < 9" using sc(5) by simp_all
    have "\<forall>r c. r < 9 \<longrightarrow> c < 9 \<longrightarrow>
                      (rowMajorLess (r, c) (row, col) \<longrightarrow> cellTrimmed p p' r c)
                      \<and> (rowMajorLess (row, col) (r, c) \<longrightarrow> untouched p p' r c)"
    proof (intro allI impI conjI)
      fix r c :: nat assume rc: "r < 9" "c < 9" and lt: "rowMajorLess (r, c) (row, col)"
      have "(r, c) \<in> set allCells" using rc by simp
      then have "(r, c) \<in> set sn \<or> (r, c) = (row, col) \<or> (r, c) \<in> set rest"
        unfolding sp by auto
      moreover have "(r, c) \<noteq> (row, col)" using lt rowMajorLess_irrefl by metis
      moreover have "(r, c) \<notin> set rest"
        using sc(2) rowMajorLess_trans[OF lt] rowMajorLess_irrefl by blast
      ultimately have "(r, c) \<in> set sn" by blast
      then show "cellTrimmed p p' r c" using b(3) by force
    next
      fix r c :: nat assume rc: "r < 9" "c < 9" and gt: "rowMajorLess (row, col) (r, c)"
      have "(r, c) \<noteq> (row, col)" using gt rowMajorLess_irrefl by metis
      moreover have "(r, c) \<notin> set sn"
        using sc(1) rowMajorLess_trans[OF _ gt] rowMajorLess_irrefl by blast
      ultimately have "(r, c) \<notin> set seen'" using b(1) by simp
      then show "untouched p p' r c" using un[OF rc] by simp
    qed
    then show ?thesis using a(2) r b(2) by auto
  next
    assume a: "passInv p allCells False p' n"
    then have n: "n = int (numBlankCells (board p'))"
      and c: "\<forall>x\<in>set allCells. cellTrimmed p p' (fst x) (snd x)"
      unfolding passInv_def numBlankCells_def by simp_all
    have "\<forall>r c. r < 9 \<longrightarrow> c < 9 \<longrightarrow> cellTrimmed p p' r c"
    proof (intro allI impI)
      fix r c :: nat assume "r < 9" "c < 9"
      then have "(r, c) \<in> set allCells" by simp
      from bspec[OF c this] show "cellTrimmed p p' r c" by simp
    qed
    moreover have "n \<noteq> - 1" using n by simp
    ultimately show ?thesis using n by simp
  qed
qed

theorem trimPossibilities_pass_witness:
  "tableOk (setAllPossibilities (SudokuPuzzle twoSolutions))
   \<and> fst (fst (trimPossibilities False (setAllPossibilities (SudokuPuzzle twoSolutions)))) = 4
   \<and> cellTrimmed (setAllPossibilities (SudokuPuzzle twoSolutions))
        (snd (fst (trimPossibilities False (setAllPossibilities (SudokuPuzzle twoSolutions))))) 0 3
   \<and> numBlankCells
        (board (snd (fst (trimPossibilities False (setAllPossibilities (SudokuPuzzle twoSolutions)))))) = 4
   \<and> tableOk (setAllPossibilities (SudokuPuzzle contradictionGrid))
   \<and> fst (fst (trimPossibilities False (setAllPossibilities (SudokuPuzzle contradictionGrid)))) = - 1
   \<and> (\<exists>row col. row < 9 \<and> col < 9
         \<and> stoppedAt (setAllPossibilities (SudokuPuzzle contradictionGrid))
              (snd (fst (trimPossibilities False (setAllPossibilities (SudokuPuzzle contradictionGrid)))))
              row col)"
proof -
  define W where "W = setAllPossibilities (SudokuPuzzle twoSolutions)"
  define C where "C = setAllPossibilities (SudokuPuzzle contradictionGrid)"
  have w1: "tableOk W" unfolding W_def by code_simp
  have w2: "fst (fst (trimPossibilities False W)) = 4" unfolding W_def by code_simp
  have w3: "trimPossibilities False W
              = ((fst (fst (trimPossibilities False W)), snd (fst (trimPossibilities False W))),
                 snd (trimPossibilities False W))" by simp
  have c1: "tableOk C" unfolding C_def by code_simp
  have c2: "fst (fst (trimPossibilities False C)) = - 1" unfolding C_def by code_simp
  have c3: "trimPossibilities False C
              = ((fst (fst (trimPossibilities False C)), snd (fst (trimPossibilities False C))),
                 snd (trimPossibilities False C))" by simp
  have a: "cellTrimmed W (snd (fst (trimPossibilities False W))) 0 3
           \<and> numBlankCells (board (snd (fst (trimPossibilities False W)))) = 4"
    using trimPossibilities_pass[OF w1 w3] w2 by simp
  have b: "\<exists>row col. row < 9 \<and> col < 9
             \<and> stoppedAt C (snd (fst (trimPossibilities False C))) row col"
    using trimPossibilities_pass[OF c1 c3] c2 by auto
  show ?thesis using w1 w2 a c1 c2 b unfolding W_def C_def by blast
qed

text \<open>Claim C1 as stated fails in two ways.  In \<open>puzzle2\<close> of \<open>main\<close> with the cell (6, 0)
  blanked, the table holds a set exactly at that cell and the value 7 creates no duplicate
  there, since it occurs nowhere else in row 6, column 0 or the box; the pass still removes
  it, with every other value, because row 6 holds 3 twice, and returns -1.  On
  \<open>contradictionGrid\<close> the pass returns -1 at the cell (0, 1) and never reaches the blank
  cell (2, 8), whose set still holds all nine values, among them 1, which occurs in its
  row.\<close>

theorem trimPossibilities_exactness_counterexample:
  "tableOk (setAllPossibilities (SudokuPuzzle puzzle2Blank))
   \<and> map_of (possibilities (setAllPossibilities (SudokuPuzzle puzzle2Blank))) (6, 0)
       = Some [1, 2, 3, 4, 5, 6, 7, 8, 9]
   \<and> \<not> createsDuplicate puzzle2Blank 7 6 0
   \<and> fst (fst (trimPossibilities False (setAllPossibilities (SudokuPuzzle puzzle2Blank)))) = - 1
   \<and> map_of (possibilities (snd (fst (trimPossibilities False
          (setAllPossibilities (SudokuPuzzle puzzle2Blank)))))) (6, 0) = Some []
   \<and> fst (fst (trimPossibilities False (setAllPossibilities (SudokuPuzzle contradictionGrid)))) = - 1
   \<and> map_of (possibilities (snd (fst (trimPossibilities False
          (setAllPossibilities (SudokuPuzzle contradictionGrid)))))) (2, 8)
       = Some [1, 2, 3, 4, 5, 6, 7, 8, 9]
   \<and> createsDuplicate (board (snd (fst (trimPossibilities False
          (setAllPossibilities (SudokuPuzzle contradictionGrid)))))) 1 2 8"
proof -
  have a: "tableOk (setAllPossibilities (SudokuPuzzle puzzle2Blank))" by code_simp
  have b: "map_of (possibilities (setAllPossibilities (SudokuPuzzle puzzle2Blank))) (6, 0)
       = Some [1, 2, 3, 4, 5, 6, 7, 8, 9]" by code_simp
  have c: "\<not> createsDuplicate puzzle2Blank 7 6 0" by code_simp
  have d: "fst (fst (trimPossibilities False (setAllPossibilities (SudokuPuzzle puzzle2Blank)))) = - 1"
    by code_simp
  have e: "map_of (possibilities (snd (fst (trimPossibilities False
          (setAllPossibilities (SudokuPuzzle puzzle2Blank)))))) (6, 0) = Some []" by code_simp
  have f: "fst (fst (trimPossibilities False (setAllPossibilities (SudokuPuzzle contradictionGrid)))) = - 1"
    by code_simp
  have g: "map_of (possibilities (snd (fst (trimPossibilities False
          (setAllPossibilities (SudokuPuzzle contradictionGrid)))))) (2, 8)
       = Some [1, 2, 3, 4, 5, 6, 7, 8, 9]" by code_simp
  have h: "createsDuplicate (board (snd (fst (trimPossibilities False
          (setAllPossibilities (SudokuPuzzle contradictionGrid)))))) 1 2 8" by code_simp
  show ?thesis
    by (rule conjI[OF a conjI[OF b conjI[OF c conjI[OF d conjI[OF e conjI[OF f conjI[OF g h]]]]]]])
qed

section \<open>Two inputs on which \<open>solve\<close> departs from its description\<close>



text \<open>Claim C6, at the input where the code departs from it.  \<open>puzzle1\<close> of \<open>main\<close> is
  completely filled with digits 1 to 9 and its boxes hold duplicates, so it has no valid
  completion; \<open>solve\<close> finds no blank cell and returns true, leaving the grid as it is.\<close>

theorem solve_accepts_full_invalid_grid:
  "\<not> fst (isSolutionValid False puzzle1)
   \<and> (case solve False (SudokuPuzzle puzzle1) of
        None \<Rightarrow> False
      | Some ((ok, p'), m) \<Rightarrow> ok \<and> board p' = puzzle1)"
proof -
  have a: "\<not> fst (isSolutionValid False puzzle1)" by code_simp
  have b: "(case solve False (SudokuPuzzle puzzle1) of
        None \<Rightarrow> False
      | Some ((ok, p'), m) \<Rightarrow> ok \<and> board p' = puzzle1)" by code_simp
  show ?thesis by (rule conjI[OF a b])
qed


end
